theory Spec2Isabelle
  imports Main "HOL-Library.Sublist" "HOL-Library.List_Lexorder" "HOL-Library.Char_ord"
begin

section \<open>Values shared by the whole development\<close>

text \<open>
  A Python \<open>str\<close> is modelled as a \<open>string\<close>, the list of its code points; Isabelle's
  \<open>char\<close> has eight bits, so the model covers the code points below 256. \<open>bytes\<close> are
  lists of \<open>char\<close> as well, and \<open>str.encode('utf-8')\<close> is the function \<open>encode_utf8\<close>.
  Logging, timing and error-reporting wrappers (modules \<open>app_logger\<close>, \<open>app_metrics\<close>, the
  raven client) and the \<open>logger\<close> arguments are not modelled: they do not decide any
  property below.
\<close>

datatype json =
    JNull
  | JBool bool
  | JInt int
  | JStr string
  | JList "json list"
  | JDict "(string \<times> json) list"

text \<open>Exceptions of the program, as values.\<close>

datatype exc =
    CancelledError
  | ESMetricsUnavailable
  | Exception string
  | KeyError string
  | TypeError
  | IndexError
  | ValueError
  | AttributeError
  | UnboundLocalError
  | OtherError string

definition newline :: char where
  "newline = CHR 0x0A"

definition encode_utf8 :: "string \<Rightarrow> string" where
  "encode_utf8 s = concat (map (\<lambda>c.
     if (of_char c :: nat) < 128 then [c]
     else [char_of (192 + (of_char c :: nat) div 64), char_of (128 + (of_char c :: nat) mod 64)]) s)"

text \<open>\<open>core/app/app_utils.py\<close>, \<open>flatten\<close>.\<close>

definition flatten :: "'a list list \<Rightarrow> 'a list" where
  "flatten list_to_flatten = concat list_to_flatten"

text \<open>Python's \<open>sep.join(parts)\<close>.\<close>

fun join :: "string \<Rightarrow> string list \<Rightarrow> string" where
  "join sep [] = []"
| "join sep [x] = x"
| "join sep (x # y # ys) = x @ sep @ join sep (y # ys)"

section \<open>\<open>json.dumps\<close>\<close>

text \<open>
  \<open>json.dumps(obj, sort_keys=...)\<close> with the default separators and \<open>ensure_ascii\<close>:
  every character outside the printable ASCII range, the double quote and the backslash are
  escaped. Floating-point numbers are not modelled. A \<open>JDict\<close> stands for a Python dict, whose
  keys are distinct strings; with \<open>sort_keys\<close> the members are emitted in the order of their
  keys.
\<close>

definition hex_digit :: "nat \<Rightarrow> char" where
  "hex_digit n = ''0123456789abcdef'' ! n"

definition escape_char :: "char \<Rightarrow> string" where
  "escape_char c =
    (if c = CHR 0x22 then [CHR 0x5C, CHR 0x22]
     else if c = CHR 0x5C then [CHR 0x5C, CHR 0x5C]
     else if c = CHR 0x0A then [CHR 0x5C, CHR ''n'']
     else if c = CHR 0x0D then [CHR 0x5C, CHR ''r'']
     else if c = CHR 0x09 then [CHR 0x5C, CHR ''t'']
     else if c = CHR 0x08 then [CHR 0x5C, CHR ''b'']
     else if c = CHR 0x0C then [CHR 0x5C, CHR ''f'']
     else if (of_char c :: nat) < 0x20 \<or> (of_char c :: nat) > 0x7E
       then [CHR 0x5C, CHR ''u'', CHR ''0'', CHR ''0'',
             hex_digit ((of_char c :: nat) div 16), hex_digit ((of_char c :: nat) mod 16)]
     else [c])"

definition encode_basestring_ascii :: "string \<Rightarrow> string" where
  "encode_basestring_ascii s = [CHR 0x22] @ concat (map escape_char s) @ [CHR 0x22]"

fun digits :: "nat \<Rightarrow> string" where
  "digits n = (if n < 10 then [''0123456789'' ! n]
               else digits (n div 10) @ [''0123456789'' ! (n mod 10)])"

declare digits.simps [simp del]

definition str_int :: "int \<Rightarrow> string" where
  "str_int i = (if i < 0 then CHR ''-'' # digits (nat (- i)) else digits (nat i))"

text \<open>The members of a dict in the order \<open>json.dumps\<close> emits them.\<close>

definition dict_items :: "bool \<Rightarrow> (string \<times> json) list \<Rightarrow> (string \<times> json) list" where
  "dict_items sort_keys kvs = (if sort_keys then sort_key fst kvs else kvs)"

function dumps :: "bool \<Rightarrow> json \<Rightarrow> string" where
  "dumps sort_keys JNull = ''null''"
| "dumps sort_keys (JBool b) = (if b then ''true'' else ''false'')"
| "dumps sort_keys (JInt i) = str_int i"
| "dumps sort_keys (JStr s) = encode_basestring_ascii s"
| "dumps sort_keys (JList xs) = ''['' @ join '', '' (map (dumps sort_keys) xs) @ '']''"
| "dumps sort_keys (JDict kvs) =
     ''{'' @ join '', ''
       (map (\<lambda>kv. encode_basestring_ascii (fst kv) @ '': '' @ dumps sort_keys (snd kv))
            (dict_items sort_keys kvs)) @ ''}''"
  by pat_completeness auto
termination
proof (relation "measure (\<lambda>(sort_keys, j). size j)")
  show "wf (measure (\<lambda>(sort_keys, j). size j))"
    by simp
next
  fix sort_keys :: bool and xs :: "json list" and x :: json
  assume "x \<in> set xs"
  then show "((sort_keys, x), (sort_keys, JList xs)) \<in> measure (\<lambda>(sort_keys, j). size j)"
    by (simp add: less_Suc_eq_le size_list_estimation')
next
  fix sort_keys :: bool and kvs :: "(string \<times> json) list" and kv :: "string \<times> json"
  assume "kv \<in> set (dict_items sort_keys kvs)"
  then have "kv \<in> set kvs"
    by (simp add: dict_items_def split: if_splits)
  then have "size (snd kv) < Suc (size_list (\<lambda>x. Suc (size (snd x))) kvs)"
    by (induction kvs) auto
  then show "((sort_keys, snd kv), (sort_keys, JDict kvs)) \<in> measure (\<lambda>(sort_keys, j). size j)"
    by (simp add: size_prod_simp)
qed

text \<open>A character \<open>json.dumps\<close> can emit: ASCII, and not the line feed.\<close>

definition plain :: "char \<Rightarrow> bool" where
  "plain c = ((of_char c :: nat) < 128 \<and> c \<noteq> newline)"

text \<open>
  The value \<open>json.dumps(..., sort_keys=True)\<close> serialises: the same value with the members of
  every dict in the order of their keys.
\<close>

primrec sort_json :: "json \<Rightarrow> json" where
  "sort_json JNull = JNull"
| "sort_json (JBool b) = JBool b"
| "sort_json (JInt i) = JInt i"
| "sort_json (JStr s) = JStr s"
| "sort_json (JList xs) = JList (map sort_json xs)"
| "sort_json (JDict kvs) = JDict (sort_key fst (map (map_prod id sort_json) kvs))"

primrec keys_sorted :: "json \<Rightarrow> bool" where
  "keys_sorted JNull = True"
| "keys_sorted (JBool b) = True"
| "keys_sorted (JInt i) = True"
| "keys_sorted (JStr s) = True"
| "keys_sorted (JList xs) = list_all id (map keys_sorted xs)"
| "keys_sorted (JDict kvs) =
     (sorted (map fst kvs) \<and> list_all id (map snd (map (map_prod id keys_sorted) kvs)))"

section \<open>The bulk body (\<open>es_bulk\<close>)\<close>

text \<open>
  An item of the list handed to \<open>es_bulk\<close>: a dict with the keys \<open>action_and_metadata\<close> and
  \<open>source\<close>.
\<close>

record bulk_item =
  action_and_metadata :: json
  source :: json

text \<open>
  \<open>core/app/app_elasticsearch.py\<close>, \<open>es_bulk\<close>: the body it posts to \<open>/_bulk\<close> for a non-empty
  list of items.
\<close>

definition es_bulk_contents :: "bulk_item list \<Rightarrow> string" where
  "es_bulk_contents items =
     encode_utf8 (join [newline] (flatten (map (\<lambda>item.
        [dumps True (action_and_metadata item), dumps True (source item)]) items)) @ [newline])"

text \<open>\<open>core/app.py\<close>, \<open>es_bulk\<close>: the older layout builds the same text from \<open>feed['items']\<close>.\<close>

definition es_bulk_app :: "bulk_item list \<Rightarrow> string" where
  "es_bulk_app feed_items =
     join [newline] (flatten (map (\<lambda>item.
        [dumps True (action_and_metadata item), dumps True (source item)]) feed_items)) @ [newline]"

section \<open>Index names (\<open>core/app/app_elasticsearch.py\<close>)\<close>

definition ALIAS :: string where
  "ALIAS = ''activities''"

text \<open>
  \<open>get_new_index_name\<close> reads the date, the clock and five random bytes. They are arguments
  of the model: \<open>today\<close> is \<open>datetime.date.today()\<close>, \<open>now\<close> is the whole seconds of
  \<open>datetime.datetime.now().timestamp()\<close> (the text before the decimal point), and \<open>urandom5\<close>
  is \<open>os.urandom(5)\<close>.
\<close>

record date =
  year :: nat
  month :: nat
  day :: nat

definition zero_pad :: "nat \<Rightarrow> string \<Rightarrow> string" where
  "zero_pad width s = replicate (width - length s) (CHR ''0'') @ s"

text \<open>\<open>date.isoformat()\<close>: \<open>YYYY-MM-DD\<close>.\<close>

definition isoformat :: "date \<Rightarrow> string" where
  "isoformat d =
     zero_pad 4 (digits (year d)) @ ''-'' @ zero_pad 2 (digits (month d)) @ ''-'' @
     zero_pad 2 (digits (day d))"

text \<open>\<open>bytes.hex()\<close>.\<close>

definition hex_bytes :: "string \<Rightarrow> string" where
  "hex_bytes bs = concat (map (\<lambda>b.
     [hex_digit ((of_char b :: nat) div 16), hex_digit ((of_char b :: nat) mod 16)]) bs)"

definition get_new_index_name :: "string \<Rightarrow> date \<Rightarrow> int \<Rightarrow> string \<Rightarrow> string" where
  "get_new_index_name feed_unique_id today now urandom5 =
     ALIAS @ ''__'' @
     ''feed_id_'' @ feed_unique_id @ ''__'' @
     ''date_'' @ isoformat today @ ''__'' @
     ''timestamp_'' @ str_int now @ ''__'' @
     ''batch_id_'' @ hex_bytes urandom5 @ ''__''"

text \<open>Python's \<open>sub in s\<close> on strings is \<open>sublist sub s\<close>.\<close>

definition indexes_matching_feed :: "string list \<Rightarrow> string \<Rightarrow> string list" where
  "indexes_matching_feed index_names feed_unique_id =
     filter (\<lambda>index_name. sublist (ALIAS @ ''__feed_id_'' @ feed_unique_id @ ''__'') index_name)
       index_names"

definition indexes_matching_feeds :: "string list \<Rightarrow> string list \<Rightarrow> string list" where
  "indexes_matching_feeds index_names feed_unique_ids =
     flatten (map (\<lambda>feed_unique_id. indexes_matching_feed index_names feed_unique_id)
       feed_unique_ids)"

definition indexes_matching_no_feeds :: "string list \<Rightarrow> string list \<Rightarrow> string list" where
  "indexes_matching_no_feeds index_names feed_unique_ids =
     (let indexes_matching = indexes_matching_feeds index_names feed_unique_ids
      in filter (\<lambda>index_name. index_name \<notin> set indexes_matching) index_names)"

text \<open>
  The pieces of a string between its underscores (\<open>s.split('_')\<close>), used to locate the
  fields of an index name.
\<close>

fun split_us :: "string \<Rightarrow> string list" where
  "split_us [] = [[]]"
| "split_us (c # cs) =
     (if c = CHR ''_'' then [] # split_us cs
      else (c # hd (split_us cs)) # tl (split_us cs))"

section \<open>The SigV4 signer (\<open>core/app.py\<close>, \<open>es_bulk_auth_headers\<close>)\<close>

text \<open>
  The signer reads the clock once (\<open>datetime.datetime.utcnow()\<close>). The process environment
  is a record that holds the clock reading and, in its extension, anything else a run could
  read; the signer takes it as its last argument. \<open>hashlib.sha256\<close> and \<open>hmac.new(...).digest()\<close>
  are functions of the standard library and are passed in.
\<close>

record datetime =
  dt_year :: nat
  dt_month :: nat
  dt_day :: nat
  dt_hour :: nat
  dt_minute :: nat
  dt_second :: nat

record environment =
  utcnow :: datetime

record hashlib =
  sha256 :: "string \<Rightarrow> string"
  hmac_sha256 :: "string \<Rightarrow> string \<Rightarrow> string"

text \<open>\<open>now.strftime('%Y%m%d')\<close> and \<open>now.strftime('%Y%m%dT%H%M%SZ')\<close>.\<close>

definition strftime_Ymd :: "datetime \<Rightarrow> string" where
  "strftime_Ymd now =
     zero_pad 4 (digits (dt_year now)) @ zero_pad 2 (digits (dt_month now)) @
     zero_pad 2 (digits (dt_day now))"

definition strftime_YmdTHMSZ :: "datetime \<Rightarrow> string" where
  "strftime_YmdTHMSZ now =
     strftime_Ymd now @ ''T'' @ zero_pad 2 (digits (dt_hour now)) @
     zero_pad 2 (digits (dt_minute now)) @ zero_pad 2 (digits (dt_second now)) @ ''Z''"

definition canonical_request :: "hashlib \<Rightarrow> string \<Rightarrow> string \<Rightarrow> string \<Rightarrow> string \<Rightarrow> string" where
  "canonical_request lib host path payload amzdate =
     (let canonical_uri = path;
          canonical_querystring = '''';
          canonical_headers =
            ''content-type:application/x-ndjson'' @ [newline] @
            ''host:'' @ host @ [newline] @ ''x-amz-date:'' @ amzdate @ [newline];
          payload_hash = hex_bytes (sha256 lib payload)
      in ''POST'' @ [newline] @ canonical_uri @ [newline] @ canonical_querystring @ [newline] @
         canonical_headers @ [newline] @ ''content-type;host;x-amz-date'' @ [newline] @
         payload_hash)"

definition sign :: "hashlib \<Rightarrow> string \<Rightarrow> string \<Rightarrow> string" where
  "sign lib key msg = hmac_sha256 lib key (encode_utf8 msg)"

definition signature :: "hashlib \<Rightarrow> string \<Rightarrow> string \<Rightarrow> string \<Rightarrow> string \<Rightarrow> string \<Rightarrow>
    string \<Rightarrow> string \<Rightarrow> string" where
  "signature lib secret_key region host path payload amzdate datestamp =
     (let service = ''es'';
          credential_scope = datestamp @ ''/'' @ region @ ''/'' @ service @ ''/aws4_request'';
          string_to_sign =
            ''AWS4-HMAC-SHA256'' @ [newline] @ amzdate @ [newline] @ credential_scope @ [newline] @
            hex_bytes (sha256 lib (encode_utf8 (canonical_request lib host path payload amzdate)));
          date_key = sign lib (encode_utf8 (''AWS4'' @ secret_key)) datestamp;
          region_key = sign lib date_key region;
          service_key = sign lib region_key service;
          request_key = sign lib service_key ''aws4_request''
      in hex_bytes (sign lib request_key string_to_sign))"

definition es_bulk_auth_headers :: "hashlib \<Rightarrow> string \<Rightarrow> string \<Rightarrow> string \<Rightarrow> string \<Rightarrow> string \<Rightarrow>
    string \<Rightarrow> 'a environment_scheme \<Rightarrow> (string \<times> string) list" where
  "es_bulk_auth_headers lib access_key secret_key region host path payload env =
     (let service = ''es'';
          signed_headers = ''content-type;host;x-amz-date'';
          algorithm = ''AWS4-HMAC-SHA256'';
          now = utcnow env;
          amzdate = strftime_YmdTHMSZ now;
          datestamp = strftime_Ymd now;
          credential_scope = datestamp @ ''/'' @ region @ ''/'' @ service @ ''/aws4_request''
      in [(''x-amz-date'', amzdate),
          (''Authorization'',
             algorithm @ '' Credential='' @ access_key @ ''/'' @ credential_scope @ '', '' @
             ''SignedHeaders='' @ signed_headers @ '', Signature='' @
             signature lib secret_key region host path payload amzdate datestamp)])"

section \<open>The supervisor (\<open>core/app/app_utils.py\<close>, \<open>async_repeat_until_cancelled\<close>)\<close>

text \<open>
  The supervisor awaits two things: the task (\<open>coroutine()\<close>) and the back-off sleep
  (\<open>asyncio.sleep\<close>). What the supervisor sees of an await is how it ends: it returns
  (\<open>None\<close>) or it raises (\<open>Some e\<close>); \<open>Some CancelledError\<close> is a cancellation delivered at
  that await. A run is described by the outcome \<open>coroutine i\<close> of the task in iteration \<open>i\<close>
  and the outcome \<open>sleeps i\<close> of the sleep of iteration \<open>i\<close>, should the supervisor reach it.
  The loop never ends by itself, so the model counts iterations down from \<open>fuel\<close> and reports
  \<open>Running\<close> when they are used up. The log records every await the supervisor starts.
\<close>

datatype sup_event = TaskRun | BackoffSleep int

datatype sup_status =
    Returned
  | Running
  | Propagated exc

text \<open>\<open>xs[i]\<close> on a Python list: a negative index counts from the end.\<close>

definition py_index :: "'a list \<Rightarrow> int \<Rightarrow> exc + 'a" where
  "py_index xs i =
     (if 0 \<le> i \<and> i < int (length xs) then Inr (xs ! nat i)
      else if i < 0 \<and> - int (length xs) \<le> i then Inr (xs ! nat (int (length xs) + i))
      else Inl IndexError)"

fun repeat_loop :: "int list \<Rightarrow> (nat \<Rightarrow> exc option) \<Rightarrow> (nat \<Rightarrow> exc option) \<Rightarrow> nat \<Rightarrow> nat \<Rightarrow> int \<Rightarrow>
    sup_event list \<Rightarrow> sup_status \<times> int \<times> sup_event list" where
  "repeat_loop exception_intervals coroutine sleeps 0 i num_exceptions_in_chain log =
     (Running, num_exceptions_in_chain, log)"
| "repeat_loop exception_intervals coroutine sleeps (Suc fuel) i num_exceptions_in_chain log =
     (case coroutine i of
        None \<Rightarrow> repeat_loop exception_intervals coroutine sleeps fuel (Suc i) 0 (log @ [TaskRun])
      | Some e \<Rightarrow>
          if e = CancelledError then (Returned, num_exceptions_in_chain, log @ [TaskRun])
          else
            (let interval_index =
                   min num_exceptions_in_chain (int (length exception_intervals) - 1)
             in case py_index exception_intervals interval_index of
                  Inl err \<Rightarrow> (Propagated err, num_exceptions_in_chain, log @ [TaskRun])
                | Inr exception_interval \<Rightarrow>
                    (case sleeps i of
                       None \<Rightarrow>
                         repeat_loop exception_intervals coroutine sleeps fuel (Suc i)
                           (num_exceptions_in_chain + 1)
                           (log @ [TaskRun, BackoffSleep exception_interval])
                     | Some e' \<Rightarrow>
                         if e' = CancelledError
                         then (Returned, num_exceptions_in_chain + 1,
                               log @ [TaskRun, BackoffSleep exception_interval])
                         else (Propagated e', num_exceptions_in_chain + 1,
                               log @ [TaskRun, BackoffSleep exception_interval]))))"

definition async_repeat_until_cancelled :: "int list \<Rightarrow> (nat \<Rightarrow> exc option) \<Rightarrow> (nat \<Rightarrow> exc option) \<Rightarrow>
    nat \<Rightarrow> sup_status \<times> int \<times> sup_event list" where
  "async_repeat_until_cancelled exception_intervals coroutine sleeps fuel =
     repeat_loop exception_intervals coroutine sleeps fuel 0 0 []"

text \<open>What a log holds: the number of task runs, and the back-off sleeps in order.\<close>

definition task_runs :: "sup_event list \<Rightarrow> nat" where
  "task_runs log = length (filter (\<lambda>ev. ev = TaskRun) log)"

fun backoff_sleeps :: "sup_event list \<Rightarrow> int list" where
  "backoff_sleeps [] = []"
| "backoff_sleeps (TaskRun # log) = backoff_sleeps log"
| "backoff_sleeps (BackoffSleep seconds # log) = seconds # backoff_sleeps log"

text \<open>
  The words of the specification. A run of the task fails when it raises anything but a
  cancellation; \<open>consecutive_failures coroutine i\<close> is the length of the chain of failures
  that ends with run \<open>i\<close> (zero when run \<open>i\<close> did not fail); the interval after the \<open>k\<close>-th
  consecutive failure is \<open>s[min(k-1, len(s)-1)]\<close>.
\<close>

definition failed :: "exc option \<Rightarrow> bool" where
  "failed outcome = (outcome \<noteq> None \<and> outcome \<noteq> Some CancelledError)"

fun consecutive_failures :: "(nat \<Rightarrow> exc option) \<Rightarrow> nat \<Rightarrow> nat" where
  "consecutive_failures coroutine 0 = (if failed (coroutine 0) then 1 else 0)"
| "consecutive_failures coroutine (Suc i) =
     (if failed (coroutine (Suc i)) then Suc (consecutive_failures coroutine i) else 0)"

definition failures_before :: "(nat \<Rightarrow> exc option) \<Rightarrow> nat \<Rightarrow> nat" where
  "failures_before coroutine i = (if i = 0 then 0 else consecutive_failures coroutine (i - 1))"

definition backoff_interval :: "int list \<Rightarrow> nat \<Rightarrow> int" where
  "backoff_interval s k = s ! min (k - 1) (length s - 1)"

text \<open>A cancellation is delivered in iteration \<open>i\<close>: to the task, or to the sleep that follows its failure.\<close>

definition cancel_delivered :: "(nat \<Rightarrow> exc option) \<Rightarrow> (nat \<Rightarrow> exc option) \<Rightarrow> nat \<Rightarrow> bool" where
  "cancel_delivered coroutine sleeps i =
     (coroutine i = Some CancelledError \<or> (failed (coroutine i) \<and> sleeps i = Some CancelledError))"

text \<open>
  What a run of the loop from iteration \<open>i\<close> does in the \<open>m\<close> iterations it executes: it runs the
  task \<open>m\<close> times, sleeps after each failed run for the interval of the specification, keeps the
  counter equal to the length of the current chain of failures, and stops at the first
  iteration in which a cancellation is delivered.
\<close>

definition run_spec :: "int list \<Rightarrow> (nat \<Rightarrow> exc option) \<Rightarrow> (nat \<Rightarrow> exc option) \<Rightarrow> nat \<Rightarrow> nat \<Rightarrow>
  sup_event list \<Rightarrow> sup_status \<Rightarrow> int \<Rightarrow> sup_event list \<Rightarrow> nat \<Rightarrow> bool" where
  "run_spec s c sl fuel i log st num log' m \<longleftrightarrow>
     task_runs log' = task_runs log + m \<and> m \<le> fuel
     \<and> backoff_sleeps log' = backoff_sleeps log @
          map (\<lambda>j. backoff_interval s (consecutive_failures c j)) (filter (\<lambda>j. failed (c j)) [i..<i + m])
     \<and> (st = Running \<longrightarrow> m = fuel \<and> num = int (failures_before c (i + fuel)))
     \<and> (\<forall>j. i \<le> j \<and> j < i + m \<and> cancel_delivered c sl j \<longrightarrow> st = Returned \<and> Suc j = i + m)"


section \<open>Effects\<close>

text \<open>
  Everything the ingestion engine and the metrics sampler do to the outside goes through one
  of the events below: a request to the search backend (\<open>es_request\<close> signs it, assembles the
  URL and sends it with \<open>session.request\<close>; the event keeps the method, path, query, headers
  and payload \<open>es_request\<close> was called with), a GET of a feed page, a sleep, a reading of the
  clock, and the calls into the modules \<open>app_redis\<close> and \<open>app_feeds\<close>, which are not part of the
  sources. A handler is the outside: a state machine that answers an event with a reply or
  an exception. A run threads the state of the outside, the trace of the events performed,
  and the gauges of the metrics registry.
\<close>

datatype http_method = GET | POST | PUT | DELETE

record es_req =
  rq_method :: http_method
  rq_path :: string
  rq_query :: "(string \<times> string) list"
  rq_headers :: "(string \<times> string) list"
  rq_payload :: string

text \<open>
  A response: its status, its body as text (\<open>await results.text()\<close>) and the value its body
  parses to (\<open>await results.json()\<close>, \<open>ujson.loads\<close>; \<open>None\<close> when the body is not JSON).
\<close>

record http_response =
  resp_status :: nat
  resp_text :: string
  resp_json :: "json option"

type_synonym gauge_values = "string \<times> string list \<Rightarrow> int option"

datatype event =
    EsRequest es_req
  | FeedGet string "(string \<times> string) list"
  | FeedConvertToBulk json "string list"
  | FeedNextHref json
  | Sleep int
  | TimeNow
  | SetFeedUpdatesSeedUrlInit string
  | SetFeedUpdatesSeedUrl string string
  | SetFeedUpdatesUrl string string
  | GetFeedUpdatesUrl string
  | RedisSetMetrics gauge_values

datatype reply =
    Done
  | Response http_response
  | BulkItems "bulk_item list"
  | Href "string option"
  | Seconds int

text \<open>
  The outcome of a computation: it returns, it raises, or the model ran out of fuel in a
  loop that has not ended (\<open>Unfinished\<close>).
\<close>

datatype 'a result = Return 'a | Raise exc | Unfinished

type_synonym 'w handler = "event \<Rightarrow> 'w \<Rightarrow> (exc + reply) \<times> 'w"

record 'w state =
  world :: 'w
  trace :: "event list"
  gauges :: gauge_values

type_synonym ('w, 'a) io = "'w state \<Rightarrow> 'a result \<times> 'w state"

definition io_return :: "'a \<Rightarrow> ('w, 'a) io" where
  "io_return x s = (Return x, s)"

definition io_raise :: "exc \<Rightarrow> ('w, 'a) io" where
  "io_raise e s = (Raise e, s)"

definition io_unfinished :: "('w, 'a) io" where
  "io_unfinished s = (Unfinished, s)"

definition io_bind :: "('w, 'a) io \<Rightarrow> ('a \<Rightarrow> ('w, 'b) io) \<Rightarrow> ('w, 'b) io" where
  "io_bind m f s =
     (case m s of
        (Return a, s') \<Rightarrow> f a s'
      | (Raise e, s') \<Rightarrow> (Raise e, s')
      | (Unfinished, s') \<Rightarrow> (Unfinished, s'))"

definition io_lift :: "exc + 'a \<Rightarrow> ('w, 'a) io" where
  "io_lift r = (case r of Inl e \<Rightarrow> io_raise e | Inr a \<Rightarrow> io_return a)"

text \<open>\<open>try: m except e: handler\<close>.\<close>

definition io_except :: "('w, 'a) io \<Rightarrow> exc \<Rightarrow> ('w, 'a) io \<Rightarrow> ('w, 'a) io" where
  "io_except m e handler s =
     (case m s of
        (Raise e', s') \<Rightarrow> if e' = e then handler s' else (Raise e', s')
      | (r, s') \<Rightarrow> (r, s'))"

definition perform :: "'w handler \<Rightarrow> event \<Rightarrow> ('w, reply) io" where
  "perform h ev s =
     (case h ev (world s) of
        (Inl e, w') \<Rightarrow> (Raise e, s\<lparr>world := w', trace := trace s @ [ev]\<rparr>)
      | (Inr x, w') \<Rightarrow> (Return x, s\<lparr>world := w', trace := trace s @ [ev]\<rparr>))"

definition expect_done :: "reply \<Rightarrow> ('w, unit) io" where
  "expect_done r = (case r of Done \<Rightarrow> io_return () | _ \<Rightarrow> io_raise TypeError)"

definition expect_response :: "reply \<Rightarrow> ('w, http_response) io" where
  "expect_response r = (case r of Response x \<Rightarrow> io_return x | _ \<Rightarrow> io_raise TypeError)"

definition expect_bulk_items :: "reply \<Rightarrow> ('w, bulk_item list) io" where
  "expect_bulk_items r = (case r of BulkItems x \<Rightarrow> io_return x | _ \<Rightarrow> io_raise TypeError)"

definition expect_href :: "reply \<Rightarrow> ('w, string option) io" where
  "expect_href r = (case r of Href x \<Rightarrow> io_return x | _ \<Rightarrow> io_raise TypeError)"

definition expect_seconds :: "reply \<Rightarrow> ('w, int) io" where
  "expect_seconds r = (case r of Seconds x \<Rightarrow> io_return x | _ \<Rightarrow> io_raise TypeError)"

subsection \<open>Python values\<close>

text \<open>\<open>obj[key]\<close> with a string key, the truth value of a JSON value, and \<open>a - b\<close>.\<close>

definition subscript :: "json \<Rightarrow> string \<Rightarrow> exc + json" where
  "subscript obj key =
     (case obj of
        JDict kvs \<Rightarrow> (case map_of kvs key of Some v \<Rightarrow> Inr v | None \<Rightarrow> Inl (KeyError key))
      | _ \<Rightarrow> Inl TypeError)"

definition truthy :: "json \<Rightarrow> bool" where
  "truthy j =
     (case j of
        JNull \<Rightarrow> False
      | JBool b \<Rightarrow> b
      | JInt i \<Rightarrow> i \<noteq> 0
      | JStr s \<Rightarrow> s \<noteq> []
      | JList xs \<Rightarrow> xs \<noteq> []
      | JDict kvs \<Rightarrow> kvs \<noteq> [])"

definition py_sub :: "json \<Rightarrow> json \<Rightarrow> exc + int" where
  "py_sub a b =
     (case (a, b) of
        (JInt x, JInt y) \<Rightarrow> Inr (x - y)
      | _ \<Rightarrow> Inl TypeError)"

definition href_truthy :: "string option \<Rightarrow> bool" where
  "href_truthy href = (case href of None \<Rightarrow> False | Some url \<Rightarrow> url \<noteq> [])"

definition response_json :: "http_response \<Rightarrow> ('w, json) io" where
  "response_json r = (case resp_json r of Some j \<Rightarrow> io_return j | None \<Rightarrow> io_raise ValueError)"

subsection \<open>The metrics registry\<close>

text \<open>
  \<open>metric.labels(*labels)\<close> returns the child gauge of these labels; when the registry has
  none yet, it creates the child, with the value 0. From then on the child is part of every
  snapshot of the registry.
\<close>

definition gauge_labels :: "string \<Rightarrow> string list \<Rightarrow> ('w, unit) io" where
  "gauge_labels name labels s =
     (Return (), s\<lparr>gauges := (gauges s)((name, labels) \<mapsto>
        (case gauges s (name, labels) of None \<Rightarrow> 0 | Some v \<Rightarrow> v))\<rparr>)"

text \<open>
  \<open>child.set(value)\<close>. The backend reports a count as a JSON integer; prometheus converts the
  value with \<open>float\<close>, which raises on \<open>None\<close>, on a list and on a dict (numbers spelled as
  strings are not modelled).
\<close>

definition gauge_child_set :: "string \<Rightarrow> string list \<Rightarrow> json \<Rightarrow> ('w, unit) io" where
  "gauge_child_set name labels v s =
     (case v of
        JInt n \<Rightarrow> (Return (), s\<lparr>gauges := (gauges s)((name, labels) \<mapsto> n)\<rparr>)
      | JBool b \<Rightarrow> (Return (), s\<lparr>gauges := (gauges s)((name, labels) \<mapsto> (if b then 1 else 0))\<rparr>)
      | JStr x \<Rightarrow> (Raise ValueError, s)
      | _ \<Rightarrow> (Raise TypeError, s))"

text \<open>\<open>metric.labels(*labels).set(value)\<close>, for a value that has been computed before.\<close>

definition gauge_set :: "string \<Rightarrow> string list \<Rightarrow> json \<Rightarrow> ('w, unit) io" where
  "gauge_set name labels v =
     io_bind (gauge_labels name labels) (\<lambda>_. gauge_child_set name labels v)"

section \<open>The search gateway (\<open>core/app/app_elasticsearch.py\<close>)\<close>

text \<open>
  The \<open>session\<close> and \<open>es_endpoint\<close> arguments are the same in every call and are left out.
\<close>

definition es_request :: "'w handler \<Rightarrow> es_req \<Rightarrow> ('w, http_response) io" where
  "es_request h req = io_bind (perform h (EsRequest req)) expect_response"

definition es_request_non_200_exception :: "'w handler \<Rightarrow> es_req \<Rightarrow> ('w, http_response) io" where
  "es_request_non_200_exception h req =
     io_bind (es_request h req) (\<lambda>results.
       if resp_status results \<noteq> 200 then io_raise (Exception (resp_text results))
       else io_return results)"

definition es_maybe_unvailable_metrics :: "'w handler \<Rightarrow> es_req \<Rightarrow> ('w, http_response) io" where
  "es_maybe_unvailable_metrics h req =
     io_bind (es_request h req) (\<lambda>results.
       if resp_status results = 503 then io_raise ESMetricsUnavailable
       else if resp_status results \<noteq> 200 then io_raise (Exception (resp_text results))
       else io_return results)"

definition json_headers :: "(string \<times> string) list" where
  "json_headers = [(''Content-Type'', ''application/json'')]"

text \<open>
  \<open>get_old_index_names\<close>: the two comprehensions over \<open>indexes.items()\<close>. \<open>select_indexes want\<close>
  keeps the names that start with \<open>activities_\<close> and whose \<open>aliases\<close> entry has the truth value
  \<open>want\<close>.
\<close>

fun select_indexes :: "bool \<Rightarrow> (string \<times> json) list \<Rightarrow> exc + string list" where
  "select_indexes want [] = Inr []"
| "select_indexes want ((index_name, index_details) # rest) =
     (if prefix (ALIAS @ ''_'') index_name then
        (case subscript index_details ''aliases'' of
           Inl e \<Rightarrow> Inl e
         | Inr aliases \<Rightarrow>
             (case select_indexes want rest of
                Inl e \<Rightarrow> Inl e
              | Inr names \<Rightarrow> Inr (if truthy aliases = want then index_name # names else names)))
      else select_indexes want rest)"

definition json_items :: "json \<Rightarrow> exc + (string \<times> json) list" where
  "json_items j = (case j of JDict kvs \<Rightarrow> Inr kvs | _ \<Rightarrow> Inl AttributeError)"

definition get_old_index_names :: "'w handler \<Rightarrow> ('w, string list \<times> string list) io" where
  "get_old_index_names h =
     io_bind (es_request_non_200_exception h
       \<lparr>rq_method = GET, rq_path = ''/_aliases'', rq_query = [], rq_headers = json_headers,
        rq_payload = []\<rparr>) (\<lambda>results.
     io_bind (response_json results) (\<lambda>indexes.
     io_bind (io_lift (json_items indexes)) (\<lambda>index_items.
     io_bind (io_lift (select_indexes False index_items)) (\<lambda>without_alias.
     io_bind (io_lift (select_indexes True index_items)) (\<lambda>with_alias.
     io_return (without_alias, with_alias))))))"

definition alias_actions :: "string \<Rightarrow> string \<Rightarrow> json" where
  "alias_actions remove_pattern index_name =
     JDict [(''actions'', JList [
       JDict [(''remove'', JDict [(''index'', JStr remove_pattern), (''alias'', JStr ALIAS)])],
       JDict [(''add'', JDict [(''index'', JStr index_name), (''alias'', JStr ALIAS)])]])]"

definition add_remove_aliases_atomically :: "'w handler \<Rightarrow> string \<Rightarrow> string \<Rightarrow> ('w, unit) io" where
  "add_remove_aliases_atomically h index_name feed_unique_id =
     (let remove_pattern = ALIAS @ ''__feed_id_'' @ feed_unique_id @ ''__*'';
          actions = encode_utf8 (dumps False (alias_actions remove_pattern index_name))
      in io_bind (es_request_non_200_exception h
           \<lparr>rq_method = POST, rq_path = ''/_aliases'', rq_query = [], rq_headers = json_headers,
            rq_payload = actions\<rparr>) (\<lambda>_. io_return ()))"

fun delete_indexes :: "'w handler \<Rightarrow> string list \<Rightarrow> ('w, unit) io" where
  "delete_indexes h [] = io_return ()"
| "delete_indexes h (index_name # index_names) =
     io_bind (es_request_non_200_exception h
       \<lparr>rq_method = DELETE, rq_path = ''/'' @ index_name, rq_query = [], rq_headers = json_headers,
        rq_payload = []\<rparr>) (\<lambda>_. delete_indexes h index_names)"

definition create_index :: "'w handler \<Rightarrow> string \<Rightarrow> ('w, unit) io" where
  "create_index h index_name =
     (let index_definition = encode_utf8 (dumps False
            (JDict [(''settings'', JDict [(''index'', JDict [
               (''number_of_shards'', JInt 4),
               (''number_of_replicas'', JInt 1),
               (''refresh_interval'', JInt (- 1))])])]))
      in io_bind (es_request_non_200_exception h
           \<lparr>rq_method = PUT, rq_path = ''/'' @ index_name, rq_query = [], rq_headers = json_headers,
            rq_payload = index_definition\<rparr>) (\<lambda>_. io_return ()))"

definition refresh_index :: "'w handler \<Rightarrow> string \<Rightarrow> ('w, unit) io" where
  "refresh_index h index_name =
     io_bind (es_request_non_200_exception h
       \<lparr>rq_method = POST, rq_path = ''/'' @ index_name @ ''/_refresh'', rq_query = [],
        rq_headers = json_headers, rq_payload = []\<rparr>) (\<lambda>_. io_return ())"

definition es_bulk :: "'w handler \<Rightarrow> bulk_item list \<Rightarrow> ('w, unit) io" where
  "es_bulk h items =
     (if items = [] then io_return ()
      else io_bind (es_request_non_200_exception h
             \<lparr>rq_method = POST, rq_path = ''/_bulk'', rq_query = [],
              rq_headers = [(''Content-Type'', ''application/x-ndjson'')],
              rq_payload = es_bulk_contents items\<rparr>) (\<lambda>_. io_return ()))"

definition count_req :: "string \<Rightarrow> es_req" where
  "count_req index_expression =
     \<lparr>rq_method = GET, rq_path = ''/'' @ index_expression @ ''/_count'',
      rq_query = [(''ignore_unavailable'', ''true'')], rq_headers = json_headers, rq_payload = []\<rparr>"



definition es_feed_activities_total :: "'w handler \<Rightarrow> string \<Rightarrow> ('w, int \<times> json) io" where
  "es_feed_activities_total h feed_id =
     io_bind (es_maybe_unvailable_metrics h
        (count_req (ALIAS @ ''__feed_id_'' @ feed_id @ ''__*,-*'' @ ALIAS))) (\<lambda>nonsearchable_result.
     io_bind (response_json nonsearchable_result) (\<lambda>nonsearchable_body.
     io_bind (io_lift (subscript nonsearchable_body ''count'')) (\<lambda>nonsearchable.
     io_bind (es_maybe_unvailable_metrics h
        (count_req (ALIAS @ ''__feed_id_'' @ feed_id @ ''__*''))) (\<lambda>total_result.
     io_bind (response_json total_result) (\<lambda>total_body.
     io_bind (io_lift (subscript total_body ''count'')) (\<lambda>total.
     io_bind (io_lift (py_sub total nonsearchable)) (\<lambda>difference.
     io_return (max difference 0, nonsearchable))))))))"




section \<open>The ingestion engine and the metrics sampler (\<open>core/app/app_outgoing.py\<close>)\<close>

text \<open>
  A feed: what \<open>parse_feed_config\<close> (module \<open>app_feeds\<close>) returns. Its methods
  \<open>convert_to_bulk_es\<close> and \<open>next_href\<close> are calls into that module and go through the handler;
  \<open>auth_headers\<close> is a field.
\<close>

record feed =
  unique_id :: string
  seed :: string
  polling_page_interval :: int
  exception_intervals :: "int list"
  auth_headers :: "string \<Rightarrow> (string \<times> string) list"


definition UPDATES_INTERVAL :: int where
  "UPDATES_INTERVAL = 1"

definition feed_unique_ids :: "feed list \<Rightarrow> string list" where
  "feed_unique_ids feed_endpoints = map unique_id feed_endpoints"

definition sleep :: "'w handler \<Rightarrow> int \<Rightarrow> ('w, unit) io" where
  "sleep h interval = io_bind (perform h (Sleep interval)) (\<lambda>_. io_return ())"

definition get_feed_contents :: "'w handler \<Rightarrow> string \<Rightarrow> (string \<times> string) list \<Rightarrow> ('w, http_response) io" where
  "get_feed_contents h href headers =
     io_bind (io_bind (perform h (FeedGet href headers)) expect_response) (\<lambda>result.
       if resp_status result \<noteq> 200 then io_raise (Exception (resp_text result))
       else io_return result)"

definition ingest_feed_page :: "'w handler \<Rightarrow> feed \<Rightarrow> string list \<Rightarrow> string \<Rightarrow> ('w, string option) io" where
  "ingest_feed_page h feed index_names href =
     io_bind (get_feed_contents h href (auth_headers feed href)) (\<lambda>feed_contents.
     io_bind (response_json feed_contents) (\<lambda>feed_parsed.
     io_bind (io_bind (perform h (FeedConvertToBulk feed_parsed index_names)) expect_bulk_items)
       (\<lambda>es_bulk_items.
     io_bind (es_bulk h es_bulk_items) (\<lambda>_.
     io_bind (perform h (FeedNextHref feed_parsed)) expect_href))))"

text \<open>
  The page loop of \<open>ingest_feed_full\<close>: \<open>while href: ...\<close>. \<open>updates_href\<close> is \<open>None\<close> while the
  variable is unbound.
\<close>

fun full_pages :: "'w handler \<Rightarrow> nat \<Rightarrow> feed \<Rightarrow> string \<Rightarrow> string option \<Rightarrow> string option \<Rightarrow>
    ('w, string option) io" where
  "full_pages h 0 feed index_name href updates_href =
     (if href_truthy href then io_unfinished else io_return updates_href)"
| "full_pages h (Suc fuel) feed index_name href updates_href =
     (if href_truthy href then
        io_bind (ingest_feed_page h feed [index_name] (the href)) (\<lambda>next_href.
        io_bind (sleep h (polling_page_interval feed)) (\<lambda>_.
        full_pages h fuel feed index_name next_href href))
      else io_return updates_href)"

definition use_updates_href :: "string option \<Rightarrow> ('w, string) io" where
  "use_updates_href updates_href =
     (case updates_href of None \<Rightarrow> io_raise UnboundLocalError | Some url \<Rightarrow> io_return url)"

definition ingest_feed_full :: "'w handler \<Rightarrow> nat \<Rightarrow> feed \<Rightarrow> date \<Rightarrow> int \<Rightarrow> string \<Rightarrow> ('w, unit) io" where
  "ingest_feed_full h fuel feed today now urandom5 =
     io_bind (io_bind (perform h (SetFeedUpdatesSeedUrlInit (unique_id feed))) expect_done) (\<lambda>_.
     io_bind (get_old_index_names h) (\<lambda>old_index_names.
     io_bind (delete_indexes h
        (indexes_matching_feeds (fst old_index_names) [unique_id feed])) (\<lambda>_.
     io_bind (create_index h (get_new_index_name (unique_id feed) today now urandom5)) (\<lambda>_.
     io_bind (full_pages h fuel feed (get_new_index_name (unique_id feed) today now urandom5)
        (Some (seed feed)) None) (\<lambda>updates_href.
     io_bind (refresh_index h (get_new_index_name (unique_id feed) today now urandom5)) (\<lambda>_.
     io_bind (add_remove_aliases_atomically h
        (get_new_index_name (unique_id feed) today now urandom5) (unique_id feed)) (\<lambda>_.
     io_bind (use_updates_href updates_href) (\<lambda>url.
     io_bind (perform h (SetFeedUpdatesSeedUrl (unique_id feed) url)) expect_done))))))))"

text \<open>
  The steps of \<open>ingest_feed_full\<close> that come before the cutover: cursor init, scrub, index
  creation, the page loop and the refresh.
\<close>

definition ingest_feed_full_before_cutover :: "'w handler \<Rightarrow> nat \<Rightarrow> feed \<Rightarrow> date \<Rightarrow> int \<Rightarrow> string \<Rightarrow>
    ('w, string option) io" where
  "ingest_feed_full_before_cutover h fuel feed today now urandom5 =
     io_bind (io_bind (perform h (SetFeedUpdatesSeedUrlInit (unique_id feed))) expect_done) (\<lambda>_.
     io_bind (get_old_index_names h) (\<lambda>old_index_names.
     io_bind (delete_indexes h
        (indexes_matching_feeds (fst old_index_names) [unique_id feed])) (\<lambda>_.
     io_bind (create_index h (get_new_index_name (unique_id feed) today now urandom5)) (\<lambda>_.
     io_bind (full_pages h fuel feed (get_new_index_name (unique_id feed) today now urandom5)
        (Some (seed feed)) None) (\<lambda>updates_href.
     io_bind (refresh_index h (get_new_index_name (unique_id feed) today now urandom5)) (\<lambda>_.
     io_return updates_href))))))"

text \<open>The page loop of \<open>ingest_feed_updates\<close>, without the sleep between pages.\<close>

fun updates_pages :: "'w handler \<Rightarrow> nat \<Rightarrow> feed \<Rightarrow> string list \<Rightarrow> string option \<Rightarrow> string option \<Rightarrow>
    ('w, string option) io" where
  "updates_pages h 0 feed index_names href updates_href =
     (if href_truthy href then io_unfinished else io_return updates_href)"
| "updates_pages h (Suc fuel) feed index_names href updates_href =
     (if href_truthy href then
        io_bind (ingest_feed_page h feed index_names (the href)) (\<lambda>next_href.
        updates_pages h fuel feed index_names next_href href)
      else io_return updates_href)"

fun refresh_indexes :: "'w handler \<Rightarrow> string list \<Rightarrow> ('w, unit) io" where
  "refresh_indexes h [] = io_return ()"
| "refresh_indexes h (index_name # index_names) =
     io_bind (refresh_index h index_name) (\<lambda>_. refresh_indexes h index_names)"

definition ingest_feed_updates :: "'w handler \<Rightarrow> nat \<Rightarrow> feed \<Rightarrow> ('w, unit) io" where
  "ingest_feed_updates h fuel feed =
     io_bind (io_bind (perform h (GetFeedUpdatesUrl (unique_id feed))) expect_href) (\<lambda>href.
     io_bind (get_old_index_names h) (\<lambda>old_index_names.
     io_bind (updates_pages h fuel feed
        (indexes_matching_feeds (fst old_index_names @ snd old_index_names) [unique_id feed])
        href None) (\<lambda>updates_href.
     io_bind (refresh_indexes h
        (indexes_matching_feeds (snd old_index_names) [unique_id feed])) (\<lambda>_.
     io_bind (use_updates_href updates_href) (\<lambda>url.
     io_bind (io_bind (perform h (SetFeedUpdatesUrl (unique_id feed) url)) expect_done) (\<lambda>_.
     sleep h UPDATES_INTERVAL))))))"

subsection \<open>The metrics sampler\<close>

text \<open>
  \<open>poll_metrics\<close> passes a logger as first argument to \<open>es_searchable_total\<close>,
  \<open>es_nonsearchable_total\<close>, \<open>es_min_verification_age\<close> and \<open>es_feed_activities_total\<close>, whose
  definitions take none; like every logger argument it is left out, and the model follows the
  bodies of these functions.
\<close>




section \<open>Backends that answer by the request alone\<close>

text \<open>
  A backend without state: it answers a request to the search backend with \<open>respond req\<close>,
  the clock with \<open>now\<close>, and completes every other event. \<open>count_of r\<close> is the integer under
  \<open>count\<close> in the body of a response, if there is one.
\<close>

definition stateless_backend :: "(es_req \<Rightarrow> http_response) \<Rightarrow> int \<Rightarrow> 'w handler" where
  "stateless_backend respond now ev w =
     (case ev of
        EsRequest req \<Rightarrow> (Inr (Response (respond req)), w)
      | TimeNow \<Rightarrow> (Inr (Seconds now), w)
      | _ \<Rightarrow> (Inr Done, w))"


definition count_response :: "nat \<Rightarrow> int \<Rightarrow> http_response" where
  "count_response code n =
     \<lparr>resp_status = code, resp_text = ''unavailable'',
      resp_json = Some (JDict [(''count'', JInt n)])\<rparr>"

definition initial_state :: "unit state" where
  "initial_state = \<lparr>world = (), trace = [], gauges = Map.empty\<rparr>"

text \<open>
  A small world with three indexes: a live and a building index of the feed \<open>F1\<close> and a live
  index of the feed \<open>F2\<close>. The feed serves one page without a next page.
\<close>

definition example_listing :: json where
  "example_listing =
     JDict [(''activities__feed_id_F1__new__'', JDict [(''aliases'', JDict [])]),
            (''activities__feed_id_F1__old__'', JDict [(''aliases'', JDict [(''activities'', JDict [])])]),
            (''activities__feed_id_F2__x__'', JDict [(''aliases'', JDict [(''activities'', JDict [])])])]"

definition example_world :: "unit handler" where
  "example_world ev w =
     (case ev of
        EsRequest req \<Rightarrow>
          (if rq_method req = GET \<and> rq_path req = ''/_aliases''
           then (Inr (Response \<lparr>resp_status = 200, resp_text = [], resp_json = Some example_listing\<rparr>), w)
           else (Inr (Response \<lparr>resp_status = 200, resp_text = ''{}'', resp_json = Some (JDict [])\<rparr>), w))
      | FeedGet href headers \<Rightarrow>
          (Inr (Response \<lparr>resp_status = 200, resp_text = [],
                  resp_json = Some (JDict [(''orderedItems'', JList [JDict [(''id'', JStr ''a'')]])])\<rparr>), w)
      | FeedConvertToBulk page index_names \<Rightarrow>
          (Inr (BulkItems (map (\<lambda>index_name.
             \<lparr>action_and_metadata =
                JDict [(''index'', JDict [(''_id'', JStr ''a''), (''_index'', JStr index_name)])],
              source = JDict [(''id'', JStr ''a'')]\<rparr>) index_names)), w)
      | FeedNextHref page \<Rightarrow> (Inr (Href None), w)
      | GetFeedUpdatesUrl feed_id \<Rightarrow> (Inr (Href (Some ''http://feed/2'')), w)
      | TimeNow \<Rightarrow> (Inr (Seconds 1541376000), w)
      | _ \<Rightarrow> (Inr Done, w))"

definition example_feed :: feed where
  "example_feed =
     \<lparr>unique_id = ''F1'', seed = ''http://feed/1'', polling_page_interval = 0,
      exception_intervals = [1, 2, 4, 8, 16, 32, 64], auth_headers = (\<lambda>href. [])\<rparr>"


text \<open>
  A small backend with a state: the names of its indexes and the members of the alias
  \<open>activities\<close>. It lists its indexes on \<open>GET /_aliases\<close>, removes an index on \<open>DELETE\<close> and
  adds one, outside the alias, on \<open>PUT\<close>; it does not implement alias updates. Its feed
  refuses every connection.
\<close>

type_synonym index_store = "string list \<times> string list"

definition listing_of :: "index_store \<Rightarrow> json" where
  "listing_of w =
     JDict (map (\<lambda>index_name.
       (index_name, JDict [(''aliases'',
          JDict (if index_name \<in> set (snd w) then [(ALIAS, JDict [])] else []))])) (fst w))"

definition store_backend :: "index_store handler" where
  "store_backend ev w =
     (case ev of
        EsRequest req \<Rightarrow>
          (if rq_method req = GET \<and> rq_path req = ''/_aliases''
           then (Inr (Response \<lparr>resp_status = 200, resp_text = [], resp_json = Some (listing_of w)\<rparr>), w)
           else if rq_method req = DELETE
           then (Inr (Response \<lparr>resp_status = 200, resp_text = ''{}'', resp_json = Some (JDict [])\<rparr>),
                 (removeAll (tl (rq_path req)) (fst w), removeAll (tl (rq_path req)) (snd w)))
           else if rq_method req = PUT
           then (Inr (Response \<lparr>resp_status = 200, resp_text = ''{}'', resp_json = Some (JDict [])\<rparr>),
                 (fst w @ [tl (rq_path req)], snd w))
           else if rq_method req = POST \<and> rq_path req = ''/_aliases''
           then (Inr (Response \<lparr>resp_status = 400, resp_text = ''unsupported'', resp_json = None\<rparr>), w)
           else (Inr (Response \<lparr>resp_status = 200, resp_text = ''{}'', resp_json = Some (JDict [])\<rparr>), w))
      | FeedGet href headers \<Rightarrow> (Inl (Exception ''connection refused''), w)
      | FeedConvertToBulk page index_names \<Rightarrow> (Inr (BulkItems []), w)
      | FeedNextHref page \<Rightarrow> (Inr (Href None), w)
      | GetFeedUpdatesUrl feed_id \<Rightarrow> (Inr (Href None), w)
      | TimeNow \<Rightarrow> (Inr (Seconds 1541376000), w)
      | _ \<Rightarrow> (Inr Done, w))"

definition store_aliased :: "index_store \<Rightarrow> string set" where
  "store_aliased w = set (snd w)"

definition example_store :: "index_store state" where
  "example_store =
     \<lparr>world = ([''activities__feed_id_F1__new__'', ''activities__feed_id_F1__old__'',
                ''activities__feed_id_F2__x__''],
               [''activities__feed_id_F1__old__'', ''activities__feed_id_F2__x__'']),
      trace = [], gauges = Map.empty\<rparr>"


section \<open>Statements about traces\<close>

text \<open>
  \<open>emits P m\<close>: whatever the outcome of \<open>m\<close>, it only appends events to the trace, and every
  event it appends satisfies \<open>P\<close>.
\<close>

definition emits :: "(event \<Rightarrow> bool) \<Rightarrow> ('w, 'a) io \<Rightarrow> bool" where
  "emits P m = (\<forall>s r s'. m s = (r, s') \<longrightarrow> (\<exists>evs. trace s' = trace s @ evs \<and> list_all P evs))"

text \<open>The event is not a call of \<open>convert_to_bulk_es\<close>, or it is one with these target indexes.\<close>

definition converts_into :: "string list \<Rightarrow> event \<Rightarrow> bool" where
  "converts_into index_names ev =
     (case ev of FeedConvertToBulk page targets \<Rightarrow> targets = index_names | _ \<Rightarrow> True)"

text \<open>The event is an alias operation: a POST to \<open>/_aliases\<close>.\<close>

definition alias_operation :: "event \<Rightarrow> bool" where
  "alias_operation ev =
     (case ev of EsRequest req \<Rightarrow> rq_method req = POST \<and> rq_path req = ''/_aliases'' | _ \<Rightarrow> False)"

section \<open>Statements about the metrics sampler\<close>











section \<open>Statements about the alias\<close>

text \<open>
  \<open>follows h P m\<close>: whatever the outcome of \<open>m\<close>, it appends events that satisfy \<open>P\<close> to the
  trace, and the world it leaves is the one the handler \<open>h\<close> makes of these events in turn.
\<close>

definition follows :: "'w handler \<Rightarrow> (event \<Rightarrow> bool) \<Rightarrow> ('w, 'a) io \<Rightarrow> bool" where
  "follows h P m =
     (\<forall>s r s'. m s = (r, s') \<longrightarrow>
        (\<exists>evs. trace s' = trace s @ evs \<and> list_all P evs \<and>
               world s' = fold (\<lambda>ev w. snd (h ev w)) evs (world s)))"

text \<open>The event is a \<open>DELETE\<close> request.\<close>

definition deletion :: "event \<Rightarrow> bool" where
  "deletion ev = (case ev of EsRequest req \<Rightarrow> rq_method req = DELETE | _ \<Rightarrow> False)"

text \<open>
  The event is not an alias operation, and if it is a \<open>DELETE\<close> request, then of one of the
  indexes \<open>index_names\<close>.
\<close>

definition scrubs :: "string list \<Rightarrow> event \<Rightarrow> bool" where
  "scrubs index_names ev =
     (\<not> alias_operation ev \<and>
      (case ev of
         EsRequest req \<Rightarrow> rq_method req = DELETE \<longrightarrow> tl (rq_path req) \<in> set index_names
       | _ \<Rightarrow> True))"

text \<open>
  The names that \<open>get_old_index_names\<close> reads as \<open>without_alias\<close> from a response to
  \<open>GET /_aliases\<close>.
\<close>

definition listed_without_alias :: "http_response \<Rightarrow> string list" where
  "listed_without_alias r =
     (case resp_json r of
        None \<Rightarrow> []
      | Some indexes \<Rightarrow>
          (case json_items indexes of
             Inl e \<Rightarrow> []
           | Inr index_items \<Rightarrow>
               (case select_indexes False index_items of Inl e \<Rightarrow> [] | Inr names \<Rightarrow> names)))"

text \<open>
  Between the states \<open>s\<close> and \<open>s'\<close> no alias operation was issued and the members of the
  alias, read off the world by \<open>aliased\<close>, are the same.
\<close>

definition alias_kept :: "('w \<Rightarrow> string set) \<Rightarrow> 'w state \<Rightarrow> 'w state \<Rightarrow> bool" where
  "alias_kept aliased s s' =
     ((\<exists>evs. trace s' = trace s @ evs \<and> list_all (\<lambda>ev. \<not> alias_operation ev) evs) \<and>
      aliased (world s') = aliased (world s))"

section \<open>Properties\<close>

subsection \<open>The serialiser emits printable ASCII only\<close>

lemma hex_digit_plain: "n < 16 \<Longrightarrow> plain (hex_digit n)"
proof -
  assume "n < 16"
  then have "hex_digit n \<in> set ''0123456789abcdef''"
    unfolding hex_digit_def by (intro nth_mem) simp
  then show ?thesis
    by (auto simp: plain_def newline_def)
qed

lemma escape_char_plain: "x \<in> set (escape_char c) \<Longrightarrow> plain x"
proof -
  have "(of_char c :: nat) mod 256 < 256"
    by (rule mod_less_divisor) simp
  then have "(of_char c :: nat) < 256"
    by (simp only: of_char_mod_256)
  then have d: "(of_char c :: nat) div 16 < 16" "(of_char c :: nat) mod 16 < 16"
    by (simp_all add: less_mult_imp_div_less)
  assume "x \<in> set (escape_char c)"
  then show ?thesis
    using hex_digit_plain [OF d(1)] hex_digit_plain [OF d(2)]
    by (auto simp: escape_char_def plain_def newline_def split: if_splits)
qed

lemma encode_basestring_ascii_plain: "x \<in> set (encode_basestring_ascii s) \<Longrightarrow> plain x"
  by (auto simp: encode_basestring_ascii_def plain_def newline_def dest: escape_char_plain)

lemma digits_plain: "x \<in> set (digits n) \<Longrightarrow> plain x"
proof (induction n arbitrary: x rule: digits.induct)
  case (1 n)
  have m: "''0123456789'' ! (n mod 10) \<in> set ''0123456789''"
    by (intro nth_mem) simp
  show ?case
  proof (cases "n < 10")
    case True
    then have "''0123456789'' ! n \<in> set ''0123456789''"
      by (intro nth_mem) simp
    with True "1.prems" show ?thesis
      by (subst (asm) digits.simps) (auto simp: plain_def newline_def)
  next
    case False
    with "1.prems" have "x \<in> set (digits (n div 10)) \<or> x = ''0123456789'' ! (n mod 10)"
      by (subst (asm) digits.simps) auto
    with False "1.IH" m show ?thesis
      by (auto simp: plain_def newline_def)
  qed
qed

lemma str_int_plain: "x \<in> set (str_int i) \<Longrightarrow> plain x"
  by (auto simp: str_int_def plain_def newline_def dest: digits_plain split: if_splits)

lemma join_plain:
  "\<forall>x\<in>set sep. plain x \<Longrightarrow> \<forall>p\<in>set parts. \<forall>x\<in>set p. plain x \<Longrightarrow> x \<in> set (join sep parts) \<Longrightarrow> plain x"
  by (induction sep parts rule: join.induct) auto

lemma dumps_plain: "x \<in> set (dumps sort_keys j) \<Longrightarrow> plain x"
proof (induction sort_keys j arbitrary: x rule: dumps.induct)
  case (5 sort_keys xs)
  from "5.prems" have "x = CHR ''['' \<or> x = CHR '']'' \<or> x \<in> set (join '', '' (map (dumps sort_keys) xs))"
    by auto
  then show ?case
  proof (elim disjE)
    assume "x \<in> set (join '', '' (map (dumps sort_keys) xs))"
    then show ?thesis
      by (rule join_plain [rotated 2]) (auto simp: plain_def newline_def dest: "5.IH")
  qed (auto simp: plain_def newline_def)
next
  case (6 sort_keys kvs)
  let ?f = "\<lambda>kv. encode_basestring_ascii (fst kv) @ '': '' @ dumps sort_keys (snd kv)"
  from "6.prems" have "x = CHR ''{'' \<or> x = CHR ''}'' \<or> x \<in> set (join '', '' (map ?f (dict_items sort_keys kvs)))"
    by auto
  then show ?case
  proof (elim disjE)
    assume "x \<in> set (join '', '' (map ?f (dict_items sort_keys kvs)))"
    then show ?thesis
    proof (rule join_plain [rotated 2])
      show "\<forall>p\<in>set (map ?f (dict_items sort_keys kvs)). \<forall>x\<in>set p. plain x"
        using "6.IH" by (auto simp: plain_def newline_def dest: encode_basestring_ascii_plain)
    qed (auto simp: plain_def newline_def)
  qed (auto simp: plain_def newline_def)
qed (auto simp: plain_def newline_def dest: encode_basestring_ascii_plain str_int_plain split: if_splits)

lemma encode_utf8_ascii: "\<forall>x\<in>set s. (of_char x :: nat) < 128 \<Longrightarrow> encode_utf8 s = s"
  by (induction s) (auto simp: encode_utf8_def)

lemma join_append_sep:
  "parts \<noteq> [] \<Longrightarrow> join sep parts @ sep = concat (map (\<lambda>p. p @ sep) parts)"
  by (induction sep parts rule: join.induct) auto

lemma count_list_plain: "\<forall>x\<in>set s. plain x \<Longrightarrow> count_list s newline = 0"
  by (auto simp: plain_def count_list_0_iff)

lemma es_bulk_app_lines:
  assumes "items \<noteq> []"
  shows "es_bulk_app items =
    concat (map (\<lambda>item. dumps True (action_and_metadata item) @ [newline] @
                          dumps True (source item) @ [newline]) items)"
    (is "_ = ?rhs")
proof -
  let ?parts = "flatten (map (\<lambda>item.
        [dumps True (action_and_metadata item), dumps True (source item)]) items)"
  from assms have ne: "?parts \<noteq> []"
    by (cases items) (auto simp: flatten_def)
  have "join [newline] ?parts @ [newline] = concat (map (\<lambda>p. p @ [newline]) ?parts)"
    using ne by (rule join_append_sep)
  also have "\<dots> = ?rhs"
    by (induction items) (auto simp: flatten_def)
  finally show ?thesis
    by (simp add: es_bulk_app_def)
qed

lemma es_bulk_contents_lines:
  assumes "items \<noteq> []"
  shows "es_bulk_contents items =
    concat (map (\<lambda>item. dumps True (action_and_metadata item) @ [newline] @
                          dumps True (source item) @ [newline]) items)"
    (is "_ = ?rhs")
proof -
  have "\<forall>x\<in>set ?rhs. (of_char x :: nat) < 128"
    by (auto simp: newline_def dest!: dumps_plain simp: plain_def)
  then have "encode_utf8 ?rhs = ?rhs"
    by (rule encode_utf8_ascii)
  moreover have "es_bulk_contents items = encode_utf8 (es_bulk_app items)"
    by (simp add: es_bulk_contents_def es_bulk_app_def)
  ultimately show ?thesis
    by (simp add: es_bulk_app_lines [OF assms])
qed

lemma count_newline_lines:
  "count_list (concat (map (\<lambda>item. dumps True (action_and_metadata item) @ [newline] @
                          dumps True (source item) @ [newline]) items)) newline = 2 * length items"
proof (induction items)
  case Nil
  show ?case by simp
next
  case (Cons item items)
  have "count_list (dumps True (action_and_metadata item)) newline = 0"
       "count_list (dumps True (source item)) newline = 0"
    by (auto intro!: count_list_plain dest: dumps_plain)
  with Cons show ?case
    by simp
qed

lemma insort_key_map:
  "(\<And>x. f (h x) = f x) \<Longrightarrow> insort_key f (h x) (map h ys) = map h (insort_key f x ys)"
  by (induction ys) auto

lemma sort_key_map:
  "(\<And>x. f (h x) = f x) \<Longrightarrow> sort_key f (map h xs) = map h (sort_key f xs)"
  by (induction xs) (auto simp: insort_key_map)

lemma dumps_sort_json: "dumps True j = dumps False (sort_json j)"
proof (induction j)
  case (JList xs)
  then have eq: "map (dumps True) xs = map (dumps False) (map sort_json xs)"
    by simp
  show ?case
    by (simp only: dumps.simps sort_json.simps eq)
next
  case (JDict kvs)
  have "map (\<lambda>kv. encode_basestring_ascii (fst kv) @ '': '' @ dumps True (snd kv)) (sort_key fst kvs)
      = map (\<lambda>kv. encode_basestring_ascii (fst kv) @ '': '' @ dumps False (snd kv))
          (map (map_prod id sort_json) (sort_key fst kvs))"
    using JDict by (auto simp: snds.simps)
  moreover have "sort_key fst (map (map_prod id sort_json) kvs) = map (map_prod id sort_json) (sort_key fst kvs)"
    by (rule sort_key_map) auto
  ultimately show ?case
    by (simp only: dumps.simps sort_json.simps dict_items_def if_True if_False)
qed simp_all

lemma keys_sorted_sort_json: "keys_sorted (sort_json j)"
proof (induction j)
  case (JList xs)
  then show ?case by (induction xs) auto
next
  case (JDict kvs)
  have "sorted (map fst (sort_key fst (map (map_prod id sort_json) kvs)))"
    by (rule sorted_sort_key)
  moreover have "list_all id (map snd (map (map_prod id keys_sorted) (sort_key fst (map (map_prod id sort_json) kvs))))"
    using JDict by (auto simp: list_all_iff snds.simps)
  ultimately show ?case by simp
qed simp_all


subsection \<open>C1: the format of the bulk body\<close>

text \<open>
  C1, as stated: for \<open>n\<close> items the body has exactly \<open>2n + 1\<close> newlines. The body of one item
  with two empty objects is the two lines \<open>{}\<close> and \<open>{}\<close>, each ended by a newline: two
  newlines, not three.
\<close>

theorem es_bulk_newline_count_counterexample:
  "[\<lparr>action_and_metadata = JDict [], source = JDict []\<rparr>] \<noteq> [] \<and>
   count_list (es_bulk_contents [\<lparr>action_and_metadata = JDict [], source = JDict []\<rparr>]) newline
     \<noteq> 2 * length [\<lparr>action_and_metadata = JDict [], source = JDict []\<rparr>] + 1"
proof -
  have "count_list (es_bulk_contents [\<lparr>action_and_metadata = JDict [], source = JDict []\<rparr>]) newline
      = 2 * length [\<lparr>action_and_metadata = JDict [], source = JDict []\<rparr>]"
    by (simp only: es_bulk_contents_lines [OF list.distinct(2)] count_newline_lines)
  then show ?thesis
    by simp
qed

text \<open>
  C1, amended: for every non-empty list of \<open>n\<close> bulk items the body emitted by \<open>es_bulk\<close> has
  exactly \<open>2n\<close> newlines and ends with a newline; it is, item by item, the line of the
  \<open>action_and_metadata\<close> object followed by the line of the \<open>source\<close> object, and each line is
  the serialisation of the object with the keys of every dict in sorted order. The older
  layout (\<open>core/app.py\<close>) emits the same text.
\<close>

theorem es_bulk_body_format:
  assumes "items \<noteq> []"
  shows "count_list (es_bulk_contents items) newline = 2 * length items
       \<and> last (es_bulk_contents items) = newline
       \<and> es_bulk_contents items =
           concat (map (\<lambda>item. dumps False (sort_json (action_and_metadata item)) @ [newline] @
                                 dumps False (sort_json (source item)) @ [newline]) items)
       \<and> (\<forall>item\<in>set items. keys_sorted (sort_json (action_and_metadata item))
                              \<and> keys_sorted (sort_json (source item)))
       \<and> es_bulk_app items = es_bulk_contents items"
proof -
  note lines = es_bulk_contents_lines [OF assms]
  have count: "count_list (es_bulk_contents items) newline = 2 * length items"
    by (simp only: lines count_newline_lines)
  have app: "es_bulk_app items = es_bulk_contents items"
    by (simp only: lines es_bulk_app_lines [OF assms])
  obtain ys y where snoc: "items = ys @ [y]"
    using assms by (cases items rule: rev_cases) auto
  have "es_bulk_contents items =
      (concat (map (\<lambda>item. dumps True (action_and_metadata item) @ [newline] @
                              dumps True (source item) @ [newline]) ys) @
       dumps True (action_and_metadata y) @ [newline] @ dumps True (source y)) @ [newline]"
    unfolding lines by (simp add: snoc)
  then have last: "last (es_bulk_contents items) = newline"
    by (simp only: last_snoc)
  have sorted: "\<forall>item\<in>set items. keys_sorted (sort_json (action_and_metadata item))
                              \<and> keys_sorted (sort_json (source item))"
    by (simp add: keys_sorted_sort_json)
  from count last sorted app show ?thesis
    by (simp add: lines dumps_sort_json)
qed

theorem es_bulk_body_format_witness:
  "[\<lparr>action_and_metadata = JDict [(''index'', JDict [(''_index'', JStr ''i''), (''_id'', JStr ''a'')])],
     source = JDict [(''id'', JStr ''a'')]\<rparr>] \<noteq> []
   \<and> count_list (es_bulk_contents
        [\<lparr>action_and_metadata = JDict [(''index'', JDict [(''_index'', JStr ''i''), (''_id'', JStr ''a'')])],
          source = JDict [(''id'', JStr ''a'')]\<rparr>]) newline = 2
   \<and> last (es_bulk_contents
        [\<lparr>action_and_metadata = JDict [(''index'', JDict [(''_index'', JStr ''i''), (''_id'', JStr ''a'')])],
          source = JDict [(''id'', JStr ''a'')]\<rparr>]) = newline
   \<and> keys_sorted (sort_json (JDict [(''index'', JDict [(''_index'', JStr ''i''), (''_id'', JStr ''a'')])]))"
proof -
  let ?items = "[\<lparr>action_and_metadata = JDict [(''index'', JDict [(''_index'', JStr ''i''), (''_id'', JStr ''a'')])],
                 source = JDict [(''id'', JStr ''a'')]\<rparr>]"
  have ne: "?items \<noteq> []"
    by simp
  note fmt = es_bulk_body_format [OF ne]
  from fmt have "count_list (es_bulk_contents ?items) newline = 2 * length ?items"
    by (rule conjunct1)
  then have count: "count_list (es_bulk_contents ?items) newline = 2"
    by (simp only: list.size One_nat_def) simp
  from fmt have last: "last (es_bulk_contents ?items) = newline"
    by (elim conjE)
  from fmt have "\<forall>item\<in>set ?items. keys_sorted (sort_json (action_and_metadata item))
                              \<and> keys_sorted (sort_json (source item))"
    by (elim conjE)
  then have sorted: "keys_sorted (sort_json (action_and_metadata (hd ?items)))"
    by (simp only: list.set ball_simps) simp
  from ne count last sorted show ?thesis
    by (simp only: list.sel bulk_item.simps) simp
qed
subsection \<open>Splitting an index name at its underscores\<close>

lemma split_us_ne [simp]: "split_us s \<noteq> []"
  by (cases s) auto

lemma split_us_plain: "CHR ''_'' \<notin> set x \<Longrightarrow> split_us (x @ ys) = (x @ hd (split_us ys)) # tl (split_us ys)"
  by (induction x) auto

lemma split_us_append:
  "split_us (ps @ ys) = butlast (split_us ps) @ (last (split_us ps) @ hd (split_us ys)) # tl (split_us ys)"
proof (induction ps)
  case Nil
  show ?case by simp
next
  case (Cons c ps)
  show ?case
  proof (cases "split_us ps")
    case Nil
    then show ?thesis by simp
  next
    case (Cons t ts)
    with Cons.IH show ?thesis
      by (cases ts) auto
  qed
qed

lemma digits_chars: "set (digits n) \<subseteq> set ''0123456789''"
proof (induction n rule: digits.induct)
  case (1 n)
  have m: "''0123456789'' ! (n mod 10) \<in> set ''0123456789''"
    by (intro nth_mem) simp
  show ?case
  proof (cases "n < 10")
    case True
    then have "''0123456789'' ! n \<in> set ''0123456789''"
      by (intro nth_mem) simp
    with True show ?thesis
      by (subst digits.simps) simp
  next
    case False
    with "1.IH" m show ?thesis
      by (subst digits.simps) simp
  qed
qed

lemma digits_no_us: "CHR ''_'' \<notin> set (digits n)"
  using digits_chars [of n] by auto

lemma isoformat_no_us: "CHR ''_'' \<notin> set (isoformat d)"
  by (simp add: isoformat_def zero_pad_def digits_no_us)

lemma str_int_no_us: "CHR ''_'' \<notin> set (str_int i)"
  by (simp add: str_int_def digits_no_us)

lemma hex_digit_chars: "n < 16 \<Longrightarrow> hex_digit n \<in> set ''0123456789abcdef''"
  unfolding hex_digit_def by (intro nth_mem) simp

lemma of_char_bounds: "(of_char c :: nat) div 16 < 16" "(of_char c :: nat) mod 16 < 16"
proof -
  have "(of_char c :: nat) mod 256 < 256"
    by (rule mod_less_divisor) simp
  then have "(of_char c :: nat) < 256"
    by (simp only: of_char_mod_256)
  then show "(of_char c :: nat) div 16 < 16" "(of_char c :: nat) mod 16 < 16"
    by (simp_all add: less_mult_imp_div_less)
qed

lemma hex_bytes_no_us: "CHR ''_'' \<notin> set (hex_bytes bs)"
proof (induction bs)
  case Nil
  show ?case by (simp add: hex_bytes_def)
next
  case (Cons b bs)
  from hex_digit_chars [OF of_char_bounds(1) [of b]] hex_digit_chars [OF of_char_bounds(2) [of b]]
  have "hex_digit ((of_char b :: nat) div 16) \<noteq> CHR ''_''" "hex_digit ((of_char b :: nat) mod 16) \<noteq> CHR ''_''"
    by auto
  with Cons show ?case
    by (auto simp: hex_bytes_def)
qed

lemma split_us_block: "CHR ''_'' \<notin> set x \<Longrightarrow> split_us (x @ CHR ''_'' # ys) = x # split_us ys"
  by (induction x) auto

lemma split_us_single: "CHR ''_'' \<notin> set x \<Longrightarrow> split_us x = [x]"
  by (induction x) auto

lemma split_us_join:
  "\<forall>x\<in>set xs. CHR ''_'' \<notin> set x \<Longrightarrow> xs \<noteq> [] \<Longrightarrow> split_us (join ''_'' xs) = xs"
  by (induction "''_''" xs rule: join.induct) (simp_all add: split_us_single split_us_block del: split_us.simps)

lemma split_us_join_append:
  "\<forall>x\<in>set xs. CHR ''_'' \<notin> set x \<Longrightarrow> xs \<noteq> [] \<Longrightarrow>
     split_us (join ''_'' xs @ CHR ''_'' # ys) = xs @ split_us ys"
  by (induction "''_''" xs rule: join.induct) (simp_all add: split_us_block del: split_us.simps)

lemma tail_tokens:
  assumes "CHR ''_'' \<notin> set D" "CHR ''_'' \<notin> set T" "CHR ''_'' \<notin> set H"
  shows "split_us (''__date_'' @ D @ ''__timestamp_'' @ T @ ''__batch_id_'' @ H @ ''__'') =
    [[], [], ''date'', D, [], ''timestamp'', T, [], ''batch'', ''id'', H, [], []]"
proof -
  have "''__date_'' @ D @ ''__timestamp_'' @ T @ ''__batch_id_'' @ H @ ''__'' =
      join ''_'' [[], [], ''date'', D, [], ''timestamp'', T, [], ''batch'', ''id'', H, [], []]"
    by simp
  moreover have "split_us (join ''_'' [[], [], ''date'', D, [], ''timestamp'', T, [], ''batch'', ''id'', H, [], []]) =
      [[], [], ''date'', D, [], ''timestamp'', T, [], ''batch'', ''id'', H, [], []]"
    by (rule split_us_join) (simp_all add: assms)
  ultimately show ?thesis
    by (simp only:)
qed

lemma feed_tokens:
  "split_us (vs @ ''__feed_id_'' @ Y) =
     butlast (split_us vs) @ last (split_us vs) # [] # ''feed'' # ''id'' # split_us Y"
proof -
  have "''__feed_id_'' @ Y = join ''_'' [[], [], ''feed'', ''id''] @ CHR ''_'' # Y"
    by simp
  moreover have "split_us (join ''_'' [[], [], ''feed'', ''id''] @ CHR ''_'' # Y) =
      [[], [], ''feed'', ''id''] @ split_us Y"
    by (rule split_us_join_append) simp_all
  ultimately have "split_us (''__feed_id_'' @ Y) = [[], [], ''feed'', ''id''] @ split_us Y"
    by (simp only:)
  then show ?thesis
    by (simp only: split_us_append [of vs]) simp
qed

lemma align_tail:
  assumes eq: "bl @ x # [] # ''feed'' # rest =
    [[], [], ''date'', D, [], ''timestamp'', T, [], ''batch'', ''id'', H, [], []]"
  shows False
proof -
  let ?L = "[[], [], ''date'', D, [], ''timestamp'', T, [], ''batch'', ''id'', H, [], []]"
  have "length (bl @ x # [] # ''feed'' # rest) = length ?L"
    by (simp only: eq)
  then have "length bl \<le> 10"
    by simp
  then have k: "length bl = 0 \<or> length bl = 1 \<or> length bl = 2 \<or> length bl = 3 \<or>
      length bl = 4 \<or> length bl = 5 \<or> length bl = 6 \<or> length bl = 7 \<or>
      length bl = 8 \<or> length bl = 9 \<or> length bl = 10"
    by arith
  have "drop (length bl) (bl @ x # [] # ''feed'' # rest) = x # [] # ''feed'' # rest"
    by simp
  then have d: "drop (length bl) ?L = x # [] # ''feed'' # rest"
    by (simp only: eq)
  from k show ?thesis
    by (elim disjE) (use d in simp_all)
qed

lemma tail_no_feed:
  assumes "CHR ''_'' \<notin> set D" "CHR ''_'' \<notin> set T" "CHR ''_'' \<notin> set H"
  shows "''__date_'' @ D @ ''__timestamp_'' @ T @ ''__batch_id_'' @ H @ ''__'' \<noteq> vs @ ''__feed_id_'' @ Y"
proof
  assume "''__date_'' @ D @ ''__timestamp_'' @ T @ ''__batch_id_'' @ H @ ''__'' = vs @ ''__feed_id_'' @ Y"
  then have "split_us (''__date_'' @ D @ ''__timestamp_'' @ T @ ''__batch_id_'' @ H @ ''__'') =
      split_us (vs @ ''__feed_id_'' @ Y)"
    by (rule arg_cong)
  then have "butlast (split_us vs) @ last (split_us vs) # [] # ''feed'' # ''id'' # split_us Y =
      [[], [], ''date'', D, [], ''timestamp'', T, [], ''batch'', ''id'', H, [], []]"
    by (simp only: tail_tokens [OF assms] feed_tokens)
  then show False
    by (rule align_tail)
qed

lemma start_or_tail:
  assumes eq: "A @ X = ps @ A @ Y" and A: "A = a # A'" and a: "a \<notin> set A'"
  shows "ps = [] \<or> (\<exists>us. X = us @ A @ Y)"
proof -
  from eq obtain us where "A = ps @ us \<and> us @ X = A @ Y \<or> A @ us = ps \<and> X = us @ A @ Y"
    by (auto simp: append_eq_append_conv2)
  then show ?thesis
  proof
    assume 1: "A = ps @ us \<and> us @ X = A @ Y"
    show ?thesis
    proof (cases ps)
      case Nil
      then show ?thesis by simp
    next
      case (Cons c ps')
      with 1 A have A': "A' = ps' @ us"
        by simp
      show ?thesis
      proof (cases us)
        case Nil
        with 1 have "X = [] @ A @ Y"
          by simp
        then show ?thesis
          by blast
      next
        case (Cons u us')
        with 1 A have "u = a"
          by simp
        with Cons A' a show ?thesis
          by simp
      qed
    qed
  next
    assume "A @ us = ps \<and> X = us @ A @ Y"
    then show ?thesis
      by blast
  qed
qed

lemma same_id:
  assumes eq: "f @ CHR ''_'' # CHR ''_'' # d # R = g @ ''__'' @ ss"
    and d: "d \<noteq> CHR ''_''"
    and f: "\<not> sublist ''__'' f" "\<not> suffix ''_'' f"
    and g: "\<not> sublist ''__'' g"
  shows "g = f"
proof -
  from eq obtain us where
    "f = g @ us \<and> us @ CHR ''_'' # CHR ''_'' # d # R = ''__'' @ ss \<or>
     f @ us = g \<and> CHR ''_'' # CHR ''_'' # d # R = us @ ''__'' @ ss"
    by (auto simp: append_eq_append_conv2)
  then show ?thesis
  proof
    assume 1: "f = g @ us \<and> us @ CHR ''_'' # CHR ''_'' # d # R = ''__'' @ ss"
    show ?thesis
    proof (cases us)
      case Nil
      with 1 show ?thesis by simp
    next
      case (Cons c us')
      note c = Cons
      show ?thesis
      proof (cases us')
        case Nil
        with c 1 have "f = g @ ''_''"
          by simp
        then have "suffix ''_'' f"
          by (simp only: suffix_def) blast
        with f(2) show ?thesis
          by simp
      next
        case (Cons c' us'')
        with c 1 have "f = g @ ''__'' @ us''"
          by simp
        then have "sublist ''__'' f"
          by (simp only: sublist_def) blast
        with f(1) show ?thesis
          by simp
      qed
    qed
  next
    assume 2: "f @ us = g \<and> CHR ''_'' # CHR ''_'' # d # R = us @ ''__'' @ ss"
    show ?thesis
    proof (cases us)
      case Nil
      with 2 show ?thesis by simp
    next
      case (Cons c us')
      note c = Cons
      show ?thesis
      proof (cases us')
        case Nil
        with c 2 d show ?thesis
          by simp
      next
        case (Cons c' us'')
        with c 2 have "g = f @ ''__'' @ us''"
          by auto
        then have "sublist ''__'' g"
          by (simp only: sublist_def) blast
        with g show ?thesis
          by simp
      qed
    qed
  qed
qed

lemma not_in_rest:
  assumes eq: "f @ ''__date_'' @ D @ ''__timestamp_'' @ T @ ''__batch_id_'' @ H @ ''__'' =
      (us @ ''activities'') @ ''__feed_id_'' @ Y"
    and no_us: "CHR ''_'' \<notin> set D" "CHR ''_'' \<notin> set T" "CHR ''_'' \<notin> set H"
    and f: "\<not> sublist ''__'' f" "\<not> suffix ''_'' f"
  shows False
proof -
  let ?R = "''__date_'' @ D @ ''__timestamp_'' @ T @ ''__batch_id_'' @ H @ ''__''"
  from eq have "\<exists>vs. f = (us @ ''activities'') @ vs \<and> vs @ ?R = ''__feed_id_'' @ Y \<or>
     f @ vs = us @ ''activities'' \<and> ?R = vs @ ''__feed_id_'' @ Y"
    by (rule iffD1 [OF append_eq_append_conv2])
  then obtain vs where
    "f = (us @ ''activities'') @ vs \<and> vs @ ?R = ''__feed_id_'' @ Y \<or>
     f @ vs = us @ ''activities'' \<and> ?R = vs @ ''__feed_id_'' @ Y" ..
  then show False
  proof
    assume 1: "f = (us @ ''activities'') @ vs \<and> vs @ ?R = ''__feed_id_'' @ Y"
    show False
    proof (cases vs)
      case Nil
      with 1 show False by simp
    next
      case (Cons c vs')
      note c = Cons
      show False
      proof (cases vs')
        case Nil
        with c 1 have "f = (us @ ''activities'') @ ''_''"
          by simp
        then have "suffix ''_'' f"
          by (simp only: suffix_def) blast
        with f(2) show False
          by simp
      next
        case (Cons c' vs'')
        with c 1 have "f = (us @ ''activities'') @ ''__'' @ vs''"
          by simp
        then have "sublist ''__'' f"
          by (simp only: sublist_def) blast
        with f(1) show False
          by simp
      qed
    qed
  next
    assume "f @ vs = us @ ''activities'' \<and> ?R = vs @ ''__feed_id_'' @ Y"
    with tail_no_feed [OF no_us] show False
      by blast
  qed
qed

lemma marker_owner:
  assumes f: "\<not> sublist ''__'' f" "\<not> suffix ''_'' f"
    and g: "\<not> sublist ''__'' g"
    and occurs: "sublist (ALIAS @ ''__feed_id_'' @ g @ ''__'') (get_new_index_name f today now rnd)"
  shows "g = f"
proof -
  let ?D = "isoformat today" and ?T = "str_int now" and ?H = "hex_bytes rnd"
  let ?R = "''__date_'' @ ?D @ ''__timestamp_'' @ ?T @ ''__batch_id_'' @ ?H @ ''__''"
  let ?A = "''activities__feed_id_''"
  from occurs obtain ps ss where
    "get_new_index_name f today now rnd = ps @ (ALIAS @ ''__feed_id_'' @ g @ ''__'') @ ss"
    by (auto simp: sublist_def)
  then have eq: "?A @ (f @ ?R) = ps @ ?A @ (g @ ''__'' @ ss)"
    by (simp add: get_new_index_name_def ALIAS_def)
  have A: "?A = CHR ''a'' # ''ctivities__feed_id_''"
    by simp
  have a: "CHR ''a'' \<notin> set ''ctivities__feed_id_''"
    by simp
  from start_or_tail [OF eq A a] have "ps = [] \<or> (\<exists>us. f @ ?R = us @ ?A @ (g @ ''__'' @ ss))" .
  moreover have "f @ ?R \<noteq> us @ ?A @ (g @ ''__'' @ ss)" for us
  proof
    assume "f @ ?R = us @ ?A @ (g @ ''__'' @ ss)"
    then have "f @ ?R = (us @ ''activities'') @ ''__feed_id_'' @ (g @ ''__'' @ ss)"
      by simp
    from not_in_rest [OF this isoformat_no_us str_int_no_us hex_bytes_no_us f] show False .
  qed
  ultimately have "ps = []"
    by blast
  with eq have "f @ CHR ''_'' # CHR ''_'' # CHR ''d'' # (''ate_'' @ ?D @ ''__timestamp_'' @ ?T @ ''__batch_id_'' @ ?H @ ''__'') =
      g @ ''__'' @ ss"
    by simp
  from same_id [OF this _ f g] show ?thesis
    by simp
qed


subsection \<open>C8: the feed-id marker and the owner of an index\<close>

text \<open>
  C8, as stated: for every name generated for a feed \<open>f\<close> and every other feed id \<open>g\<close>, the
  marker \<open>activities__feed_id_<g>__\<close> does not occur in the name. Feed ids are arbitrary
  strings: the name generated for the feed \<open>a__b\<close> starts with the marker of the feed \<open>a\<close>.
\<close>

theorem feed_marker_counterexample:
  "''a__b'' \<noteq> ''a'' \<and>
   sublist (ALIAS @ ''__feed_id_'' @ ''a'' @ ''__'')
     (get_new_index_name ''a__b'' \<lparr>year = 2018, month = 11, day = 5\<rparr> 1541376000
        [CHR 0x01, CHR 0xAB, CHR 0x00, CHR 0xFF, CHR 0x10])"
proof -
  have "get_new_index_name ''a__b'' \<lparr>year = 2018, month = 11, day = 5\<rparr> 1541376000
        [CHR 0x01, CHR 0xAB, CHR 0x00, CHR 0xFF, CHR 0x10] =
      (ALIAS @ ''__feed_id_'' @ ''a'' @ ''__'') @
      (''b__date_'' @ isoformat \<lparr>year = 2018, month = 11, day = 5\<rparr> @ ''__timestamp_'' @
       str_int 1541376000 @ ''__batch_id_'' @
       hex_bytes [CHR 0x01, CHR 0xAB, CHR 0x00, CHR 0xFF, CHR 0x10] @ ''__'')"
    by (simp add: get_new_index_name_def)
  then have "sublist (ALIAS @ ''__feed_id_'' @ ''a'' @ ''__'')
     (get_new_index_name ''a__b'' \<lparr>year = 2018, month = 11, day = 5\<rparr> 1541376000
        [CHR 0x01, CHR 0xAB, CHR 0x00, CHR 0xFF, CHR 0x10])"
    by (simp only: sublist_append_rightI)
  then show ?thesis
    by simp
qed

text \<open>
  The two ways in which a feed id breaks the statement: an id that contains \<open>__\<close>, and an id
  that ends with an underscore. The name generated for \<open>u__v\<close>, and the name generated for
  \<open>u_\<close>, contain the marker of the feed \<open>u\<close>.
\<close>

lemma marker_of_prefix_before_double_underscore:
  "sublist (ALIAS @ ''__feed_id_'' @ u @ ''__'') (get_new_index_name (u @ ''__'' @ v) today now urandom5)"
proof -
  have "get_new_index_name (u @ ''__'' @ v) today now urandom5 =
      (ALIAS @ ''__feed_id_'' @ u @ ''__'') @
      (v @ ''__date_'' @ isoformat today @ ''__timestamp_'' @ str_int now @ ''__batch_id_'' @
       hex_bytes urandom5 @ ''__'')"
    by (simp add: get_new_index_name_def)
  then show ?thesis
    by (simp only: sublist_append_rightI)
qed

lemma marker_of_prefix_before_trailing_underscore:
  "sublist (ALIAS @ ''__feed_id_'' @ u @ ''__'') (get_new_index_name (u @ ''_'') today now urandom5)"
proof -
  have "get_new_index_name (u @ ''_'') today now urandom5 =
      (ALIAS @ ''__feed_id_'' @ u @ ''__'') @
      (''_date_'' @ isoformat today @ ''__timestamp_'' @ str_int now @ ''__batch_id_'' @
       hex_bytes urandom5 @ ''__'')"
    by (simp add: get_new_index_name_def)
  then show ?thesis
    by (simp only: sublist_append_rightI)
qed

text \<open>
  C8, amended: for feed ids that contain no double underscore \<open>__\<close> and do not end with an
  underscore, the marker \<open>activities__feed_id_<g>__\<close> occurs in an index name generated by
  \<open>get_new_index_name\<close> for the feed \<open>f\<close> exactly when \<open>g = f\<close>; so \<open>indexes_matching_feed\<close>
  selects the name for its owner and for no other feed. Single underscores inside an id, and
  an underscore at its start, do no harm. Of the id \<open>g\<close> whose marker is looked for, the
  proof uses only that it contains no \<open>__\<close>.
\<close>

theorem feed_marker_identifies_owner:
  assumes "\<not> sublist ''__'' f" and "\<not> suffix ''_'' f" and "\<not> sublist ''__'' g"
  shows "(sublist (ALIAS @ ''__feed_id_'' @ g @ ''__'') (get_new_index_name f today now urandom5)
            \<longleftrightarrow> g = f)
       \<and> indexes_matching_feed [get_new_index_name f today now urandom5] g =
           (if g = f then [get_new_index_name f today now urandom5] else [])"
proof -
  have "get_new_index_name f today now urandom5 =
      (ALIAS @ ''__feed_id_'' @ f @ ''__'') @
      (''date_'' @ isoformat today @ ''__timestamp_'' @ str_int now @ ''__batch_id_'' @
       hex_bytes urandom5 @ ''__'')"
    by (simp add: get_new_index_name_def)
  then have own: "sublist (ALIAS @ ''__feed_id_'' @ f @ ''__'') (get_new_index_name f today now urandom5)"
    by (simp only: sublist_append_rightI)
  have iff: "sublist (ALIAS @ ''__feed_id_'' @ g @ ''__'') (get_new_index_name f today now urandom5)
            \<longleftrightarrow> g = f"
    using own marker_owner [OF assms] by blast
  then show ?thesis
    by (simp add: indexes_matching_feed_def)
qed

theorem feed_marker_identifies_owner_witness:
  "\<not> sublist ''__'' ''first_feed'' \<and> \<not> suffix ''_'' ''first_feed'' \<and> \<not> sublist ''__'' ''first''
   \<and> \<not> sublist (ALIAS @ ''__feed_id_'' @ ''first'' @ ''__'')
        (get_new_index_name ''first_feed'' \<lparr>year = 2018, month = 11, day = 5\<rparr> 1541376000
           [CHR 0x01, CHR 0xAB, CHR 0x00, CHR 0xFF, CHR 0x10])
   \<and> indexes_matching_feed
        [get_new_index_name ''first_feed'' \<lparr>year = 2018, month = 11, day = 5\<rparr> 1541376000
           [CHR 0x01, CHR 0xAB, CHR 0x00, CHR 0xFF, CHR 0x10]] ''first'' = []"
proof -
  have f: "\<not> sublist ''__'' ''first_feed''" "\<not> suffix ''_'' ''first_feed''"
    and g: "\<not> sublist ''__'' ''first''"
    by (simp_all add: sublist_code suffix_to_prefix)
  from feed_marker_identifies_owner [OF f g] f g show ?thesis
    by simp
qed


subsection \<open>C9: the signer is a function of its inputs and the clock\<close>

text \<open>
  C9: for fixed inputs (access key, secret key, region, host, path, payload) and a fixed
  clock time, the signer returns identical \<open>x-amz-date\<close> and \<open>Authorization\<close> header values on
  any two invocations. Two runs in environments that agree on the clock reading, whatever
  else differs in them, return the same two headers; \<open>x-amz-date\<close> is the formatted clock
  reading.
\<close>

theorem es_bulk_auth_headers_deterministic:
  assumes "utcnow env1 = utcnow env2"
  shows "es_bulk_auth_headers lib access_key secret_key region host path payload env1 =
         es_bulk_auth_headers lib access_key secret_key region host path payload env2
       \<and> map fst (es_bulk_auth_headers lib access_key secret_key region host path payload env1) =
           [''x-amz-date'', ''Authorization'']
       \<and> map_of (es_bulk_auth_headers lib access_key secret_key region host path payload env1)
             ''x-amz-date'' = Some (strftime_YmdTHMSZ (utcnow env2))"
  using assms by (simp add: es_bulk_auth_headers_def Let_def)

theorem es_bulk_auth_headers_deterministic_witness:
  "utcnow \<lparr>utcnow = \<lparr>dt_year = 2018, dt_month = 11, dt_day = 5, dt_hour = 9, dt_minute = 4, dt_second = 7\<rparr>\<rparr> =
   utcnow \<lparr>utcnow = \<lparr>dt_year = 2018, dt_month = 11, dt_day = 5, dt_hour = 9, dt_minute = 4, dt_second = 7\<rparr>,
           \<dots> = ''another run''\<rparr>
   \<and> es_bulk_auth_headers \<lparr>sha256 = rev, hmac_sha256 = (\<lambda>key msg. key @ msg)\<rparr>
        ''some-id'' ''aws-secret'' ''us-east-2'' ''127.0.0.1'' ''/_bulk'' ''{}''
        \<lparr>utcnow = \<lparr>dt_year = 2018, dt_month = 11, dt_day = 5, dt_hour = 9, dt_minute = 4, dt_second = 7\<rparr>\<rparr> =
      es_bulk_auth_headers \<lparr>sha256 = rev, hmac_sha256 = (\<lambda>key msg. key @ msg)\<rparr>
        ''some-id'' ''aws-secret'' ''us-east-2'' ''127.0.0.1'' ''/_bulk'' ''{}''
        \<lparr>utcnow = \<lparr>dt_year = 2018, dt_month = 11, dt_day = 5, dt_hour = 9, dt_minute = 4, dt_second = 7\<rparr>,
         \<dots> = ''another run''\<rparr>
   \<and> map_of (es_bulk_auth_headers \<lparr>sha256 = rev, hmac_sha256 = (\<lambda>key msg. key @ msg)\<rparr>
        ''some-id'' ''aws-secret'' ''us-east-2'' ''127.0.0.1'' ''/_bulk'' ''{}''
        \<lparr>utcnow = \<lparr>dt_year = 2018, dt_month = 11, dt_day = 5, dt_hour = 9, dt_minute = 4, dt_second = 7\<rparr>\<rparr>)
        ''x-amz-date'' = Some ''20181105T090407Z''"
proof -
  have clock: "utcnow \<lparr>utcnow = \<lparr>dt_year = 2018, dt_month = 11, dt_day = 5, dt_hour = 9, dt_minute = 4, dt_second = 7\<rparr>\<rparr> =
   utcnow \<lparr>utcnow = \<lparr>dt_year = 2018, dt_month = 11, dt_day = 5, dt_hour = 9, dt_minute = 4, dt_second = 7\<rparr>,
           \<dots> = ''another run''\<rparr>"
    by simp
  have fmt: "strftime_YmdTHMSZ \<lparr>dt_year = 2018, dt_month = 11, dt_day = 5, dt_hour = 9, dt_minute = 4, dt_second = 7\<rparr>
      = ''20181105T090407Z''"
    by (simp add: strftime_YmdTHMSZ_def strftime_Ymd_def zero_pad_def digits.simps)
  note det = es_bulk_auth_headers_deterministic [OF clock,
      of "\<lparr>sha256 = rev, hmac_sha256 = (\<lambda>key msg. key @ msg)\<rparr>"
         "''some-id''" "''aws-secret''" "''us-east-2''" "''127.0.0.1''" "''/_bulk''" "''{}''"]
  from det have same: "es_bulk_auth_headers \<lparr>sha256 = rev, hmac_sha256 = (\<lambda>key msg. key @ msg)\<rparr>
        ''some-id'' ''aws-secret'' ''us-east-2'' ''127.0.0.1'' ''/_bulk'' ''{}''
        \<lparr>utcnow = \<lparr>dt_year = 2018, dt_month = 11, dt_day = 5, dt_hour = 9, dt_minute = 4, dt_second = 7\<rparr>\<rparr> =
      es_bulk_auth_headers \<lparr>sha256 = rev, hmac_sha256 = (\<lambda>key msg. key @ msg)\<rparr>
        ''some-id'' ''aws-secret'' ''us-east-2'' ''127.0.0.1'' ''/_bulk'' ''{}''
        \<lparr>utcnow = \<lparr>dt_year = 2018, dt_month = 11, dt_day = 5, dt_hour = 9, dt_minute = 4, dt_second = 7\<rparr>,
         \<dots> = ''another run''\<rparr>"
    by (rule conjunct1)
  from det have "map_of (es_bulk_auth_headers \<lparr>sha256 = rev, hmac_sha256 = (\<lambda>key msg. key @ msg)\<rparr>
        ''some-id'' ''aws-secret'' ''us-east-2'' ''127.0.0.1'' ''/_bulk'' ''{}''
        \<lparr>utcnow = \<lparr>dt_year = 2018, dt_month = 11, dt_day = 5, dt_hour = 9, dt_minute = 4, dt_second = 7\<rparr>\<rparr>)
        ''x-amz-date'' = Some (strftime_YmdTHMSZ (utcnow \<lparr>utcnow = \<lparr>dt_year = 2018, dt_month = 11, dt_day = 5,
           dt_hour = 9, dt_minute = 4, dt_second = 7\<rparr>, \<dots> = ''another run''\<rparr>))"
    by (elim conjE)
  then have date: "map_of (es_bulk_auth_headers \<lparr>sha256 = rev, hmac_sha256 = (\<lambda>key msg. key @ msg)\<rparr>
        ''some-id'' ''aws-secret'' ''us-east-2'' ''127.0.0.1'' ''/_bulk'' ''{}''
        \<lparr>utcnow = \<lparr>dt_year = 2018, dt_month = 11, dt_day = 5, dt_hour = 9, dt_minute = 4, dt_second = 7\<rparr>\<rparr>)
        ''x-amz-date'' = Some ''20181105T090407Z''"
    by (simp only: environment.simps fmt)
  from clock same date show ?thesis
    by (intro conjI)
qed

subsection \<open>The supervisor loop\<close>

lemma task_runs_append: "task_runs (xs @ ys) = task_runs xs + task_runs ys"
  by (simp add: task_runs_def)

lemma backoff_sleeps_append: "backoff_sleeps (xs @ ys) = backoff_sleeps xs @ backoff_sleeps ys"
  by (induction xs rule: backoff_sleeps.induct) auto

lemma consecutive_failures_step:
  "failed (c i) \<Longrightarrow> consecutive_failures c i = Suc (failures_before c i)"
  by (cases i) (simp_all add: failures_before_def)

lemma failures_before_Suc: "failures_before c (Suc i) = consecutive_failures c i"
  by (simp add: failures_before_def)

lemma consecutive_failures_reset: "\<not> failed (c i) \<Longrightarrow> consecutive_failures c i = 0"
  by (cases i) simp_all

lemma py_index_backoff:
  assumes "s \<noteq> []"
  shows "py_index s (min (int k) (int (length s) - 1)) = Inr (backoff_interval s (Suc k))"
proof -
  from assms have "0 < length s"
    by simp
  then have "nat (min (int k) (int (length s) - 1)) = min k (length s - 1)"
    by linarith
  moreover have "0 \<le> min (int k) (int (length s) - 1)" "min (int k) (int (length s) - 1) < int (length s)"
    using \<open>0 < length s\<close> by linarith+
  ultimately show ?thesis
    by (simp add: py_index_def backoff_interval_def)
qed

lemma run_spec_step:
  assumes spec: "run_spec s c sl fuel (Suc i) (log @ evs) st num log' m"
    and runs: "task_runs evs = 1"
    and sleeps: "backoff_sleeps evs = (if failed (c i) then [backoff_interval s (consecutive_failures c i)] else [])"
    and nc: "\<not> cancel_delivered c sl i"
  shows "run_spec s c sl (Suc fuel) i log st num log' (Suc m)"
proof -
  have upt: "[i..<i + Suc m] = i # [Suc i..<Suc i + m]"
    by (simp add: upt_conv_Cons)
  from spec have a: "task_runs log' = task_runs (log @ evs) + m" and b: "m \<le> fuel"
    and c: "backoff_sleeps log' = backoff_sleeps (log @ evs) @
          map (\<lambda>j. backoff_interval s (consecutive_failures c j)) (filter (\<lambda>j. failed (c j)) [Suc i..<Suc i + m])"
    and d: "st = Running \<longrightarrow> m = fuel \<and> num = int (failures_before c (Suc i + fuel))"
    and e: "\<forall>j. Suc i \<le> j \<and> j < Suc i + m \<and> cancel_delivered c sl j \<longrightarrow> st = Returned \<and> Suc j = Suc i + m"
    unfolding run_spec_def by blast+
  have 1: "task_runs log' = task_runs log + Suc m"
    using a runs by (simp add: task_runs_append)
  have 2: "Suc m \<le> Suc fuel"
    using b by simp
  have 3: "backoff_sleeps log' = backoff_sleeps log @
          map (\<lambda>j. backoff_interval s (consecutive_failures c j)) (filter (\<lambda>j. failed (c j)) [i..<i + Suc m])"
    unfolding upt c backoff_sleeps_append sleeps by simp
  have 4: "st = Running \<longrightarrow> Suc m = Suc fuel \<and> num = int (failures_before c (i + Suc fuel))"
    using d by simp
  have 5: "\<forall>j. i \<le> j \<and> j < i + Suc m \<and> cancel_delivered c sl j \<longrightarrow> st = Returned \<and> Suc j = i + Suc m"
  proof (intro allI impI)
    fix j
    assume j: "i \<le> j \<and> j < i + Suc m \<and> cancel_delivered c sl j"
    with nc have "j \<noteq> i"
      by auto
    with j have "Suc i \<le> j \<and> j < Suc i + m \<and> cancel_delivered c sl j"
      by simp
    with e have "st = Returned \<and> Suc j = Suc i + m"
      by blast
    then show "st = Returned \<and> Suc j = i + Suc m"
      by simp
  qed
  from 1 2 3 4 5 show ?thesis
    unfolding run_spec_def by blast
qed

lemma run_spec_last:
  assumes runs: "task_runs log' = task_runs log + 1"
    and sleeps: "backoff_sleeps log' = backoff_sleeps log @
       (if failed (c i) then [backoff_interval s (consecutive_failures c i)] else [])"
    and st: "st \<noteq> Running"
    and cancel: "cancel_delivered c sl i \<longrightarrow> st = Returned"
  shows "run_spec s c sl (Suc fuel) i log st num log' 1"
proof -
  have 3: "backoff_sleeps log' = backoff_sleeps log @
          map (\<lambda>j. backoff_interval s (consecutive_failures c j)) (filter (\<lambda>j. failed (c j)) [i..<i + 1])"
    unfolding sleeps by simp
  have 5: "\<forall>j. i \<le> j \<and> j < i + 1 \<and> cancel_delivered c sl j \<longrightarrow> st = Returned \<and> Suc j = i + 1"
  proof (intro allI impI)
    fix j
    assume j: "i \<le> j \<and> j < i + 1 \<and> cancel_delivered c sl j"
    then have "j = i"
      by arith
    with j cancel show "st = Returned \<and> Suc j = i + 1"
      by simp
  qed
  have 2: "1 \<le> Suc fuel"
    by simp
  from st have 4: "st = Running \<longrightarrow> 1 = Suc fuel \<and> num = int (failures_before c (i + Suc fuel))"
    by simp
  from runs 2 3 4 5 show ?thesis
    unfolding run_spec_def by blast
qed

lemma repeat_loop_spec:
  assumes "s \<noteq> []"
  shows "repeat_loop s c sl fuel i (int (failures_before c i)) log = (st, num, log') \<Longrightarrow>
    \<exists>m. run_spec s c sl fuel i log st num log' m"
proof (induction fuel arbitrary: i log)
  case 0
  then have "run_spec s c sl 0 i log st num log' 0"
    by (simp add: run_spec_def)
  then show ?case ..
next
  case (Suc fuel)
  show ?case
  proof (cases "c i")
    case None
    then have nf: "\<not> failed (c i)"
      by (simp add: failed_def)
    from None Suc.prems have "repeat_loop s c sl fuel (Suc i) (int (failures_before c (Suc i))) (log @ [TaskRun]) = (st, num, log')"
      by (simp add: failures_before_Suc consecutive_failures_reset [of c i, OF nf])
    from Suc.IH [OF this] obtain m where "run_spec s c sl fuel (Suc i) (log @ [TaskRun]) st num log' m" ..
    then have "run_spec s c sl (Suc fuel) i log st num log' (Suc m)"
      by (rule run_spec_step) (simp_all add: task_runs_def failed_def cancel_delivered_def None)
    then show ?thesis ..
  next
    case (Some e)
    show ?thesis
    proof (cases "e = CancelledError")
      case True
      with Some Suc.prems have res: "st = Returned" "log' = log @ [TaskRun]"
        by simp_all
      from Some True have nf: "\<not> failed (c i)"
        by (simp add: failed_def)
      have "run_spec s c sl (Suc fuel) i log st num log' 1"
        by (rule run_spec_last) (use res nf in \<open>simp_all add: task_runs_append backoff_sleeps_append task_runs_def\<close>)
      then show ?thesis ..
    next
      case False
      with Some have f: "failed (c i)"
        by (simp add: failed_def)
      let ?d = "backoff_interval s (consecutive_failures c i)"
      have idx: "py_index s (min (int (failures_before c i)) (int (length s) - 1)) = Inr ?d"
        by (simp only: py_index_backoff [OF assms] consecutive_failures_step [of c i, OF f])
      have nxt: "int (failures_before c i) + 1 = int (failures_before c (Suc i))"
        by (simp add: failures_before_Suc consecutive_failures_step [of c i, OF f])
      show ?thesis
      proof (cases "sl i")
        case None
        have "repeat_loop s c sl (Suc fuel) i (int (failures_before c i)) log =
            repeat_loop s c sl fuel (Suc i) (int (failures_before c i) + 1) (log @ [TaskRun, BackoffSleep ?d])"
          using \<open>c i = Some e\<close> False None by (simp add: idx)
        with Suc.prems
        have "repeat_loop s c sl fuel (Suc i) (int (failures_before c (Suc i))) (log @ [TaskRun, BackoffSleep ?d]) = (st, num, log')"
          by (simp only: nxt)
        from Suc.IH [OF this] obtain m where "run_spec s c sl fuel (Suc i) (log @ [TaskRun, BackoffSleep ?d]) st num log' m" ..
        then have "run_spec s c sl (Suc fuel) i log st num log' (Suc m)"
          by (rule run_spec_step) (use f in \<open>simp_all add: task_runs_def cancel_delivered_def None Some False\<close>)
        then show ?thesis ..
      next
        case (Some e')
        have "repeat_loop s c sl (Suc fuel) i (int (failures_before c i)) log =
            (if e' = CancelledError then Returned else Propagated e',
             int (failures_before c i) + 1, log @ [TaskRun, BackoffSleep ?d])"
          using \<open>c i = Some e\<close> False Some by (simp add: idx)
        with Suc.prems
        have res: "st = (if e' = CancelledError then Returned else Propagated e')"
            "log' = log @ [TaskRun, BackoffSleep ?d]"
          by simp_all
        have "run_spec s c sl (Suc fuel) i log st num log' 1"
          by (rule run_spec_last)
            (use res f Some in \<open>auto simp: task_runs_append backoff_sleeps_append task_runs_def cancel_delivered_def failed_def\<close>)
        then show ?thesis ..
      qed
    qed
  qed
qed


lemma repeat_loop_stable:
  "repeat_loop s c sl fuel i n log = (st, num, log') \<Longrightarrow> st \<noteq> Running \<Longrightarrow>
   repeat_loop s c sl (fuel + k) i n log = (st, num, log')"
  by (induction fuel arbitrary: i n log)
     (auto split: option.splits sum.splits if_splits simp: Let_def)

subsection \<open>C4: the back-off schedule\<close>

text \<open>
  C4: for every non-empty back-off schedule \<open>s\<close> and every run of the supervisor loop, the sleep
  executed after the \<open>k\<close>-th consecutive failure of the task is \<open>s[min(k-1, len(s)-1)]\<close> seconds,
  and a completion of the task without an exception resets the count of consecutive failures
  to zero. The sleeps of the log are, in order, the intervals of the specification for the
  failed runs; while the loop runs, its counter is the length of the chain of failures that
  ends with the last run, which is zero after a run that returned.
\<close>

theorem supervisor_backoff:
  assumes "schedule \<noteq> []"
    and "async_repeat_until_cancelled schedule coroutine sleeps fuel = (status, num, log)"
  shows "backoff_sleeps log =
           map (\<lambda>i. backoff_interval schedule (consecutive_failures coroutine i))
               (filter (\<lambda>i. failed (coroutine i)) [0..<task_runs log])
       \<and> (status = Running \<longrightarrow> task_runs log = fuel \<and> num = int (failures_before coroutine fuel))
       \<and> (status = Running \<and> 0 < fuel \<and> coroutine (fuel - 1) = None \<longrightarrow> num = 0)"
proof -
  from assms(2) have "repeat_loop schedule coroutine sleeps fuel 0
      (int (failures_before coroutine 0)) [] = (status, num, log)"
    by (simp add: async_repeat_until_cancelled_def failures_before_def)
  from repeat_loop_spec [OF assms(1) this] obtain m where
    "run_spec schedule coroutine sleeps fuel 0 [] status num log m" ..
  then have runs: "task_runs log = m"
    and sl: "backoff_sleeps log =
          map (\<lambda>j. backoff_interval schedule (consecutive_failures coroutine j))
            (filter (\<lambda>j. failed (coroutine j)) [0..<m])"
    and run: "status = Running \<longrightarrow> m = fuel \<and> num = int (failures_before coroutine fuel)"
    by (simp_all add: run_spec_def task_runs_def)
  have reset: "status = Running \<and> 0 < fuel \<and> coroutine (fuel - 1) = None \<longrightarrow> num = 0"
  proof
    assume a: "status = Running \<and> 0 < fuel \<and> coroutine (fuel - 1) = None"
    then have "\<not> failed (coroutine (fuel - 1))"
      by (simp add: failed_def)
    then have "consecutive_failures coroutine (fuel - 1) = 0"
      by (rule consecutive_failures_reset)
    with a run show "num = 0"
      by (simp add: failures_before_def)
  qed
  from runs sl run reset show ?thesis
    by simp
qed

theorem supervisor_backoff_witness:
  "[1, 2, 4] \<noteq> ([] :: int list)
   \<and> async_repeat_until_cancelled [1, 2, 4]
        (\<lambda>i. if i = 2 then None else Some (Exception ''500'')) (\<lambda>i. None) (Suc (Suc (Suc (Suc 0))))
      = (Running, 1, [TaskRun, BackoffSleep 1, TaskRun, BackoffSleep 2, TaskRun, TaskRun, BackoffSleep 1])
   \<and> backoff_sleeps [TaskRun, BackoffSleep 1, TaskRun, BackoffSleep 2, TaskRun, TaskRun, BackoffSleep 1] =
       map (\<lambda>i. backoff_interval [1, 2, 4]
              (consecutive_failures (\<lambda>i. if i = 2 then None else Some (Exception ''500'')) i))
         (filter (\<lambda>i. failed ((\<lambda>i. if i = 2 then None else Some (Exception ''500'')) i))
            [0..<task_runs [TaskRun, BackoffSleep 1, TaskRun, BackoffSleep 2, TaskRun, TaskRun, BackoffSleep 1]])"
proof -
  have ne: "[1, 2, 4] \<noteq> ([] :: int list)"
    by simp
  have run: "async_repeat_until_cancelled [1, 2, 4]
        (\<lambda>i. if i = 2 then None else Some (Exception ''500'')) (\<lambda>i. None) (Suc (Suc (Suc (Suc 0))))
      = (Running, 1, [TaskRun, BackoffSleep 1, TaskRun, BackoffSleep 2, TaskRun, TaskRun, BackoffSleep 1])"
    by (simp add: async_repeat_until_cancelled_def py_index_def)
  from supervisor_backoff [OF ne run] ne run show ?thesis
    by blast
qed

subsection \<open>C7: cancellation\<close>

text \<open>
  C7: once a cancellation is delivered to the supervisor loop, while the task is running or
  while a back-off sleep is in flight, the supervisor returns without executing any further
  task run, retry or sleep. If a cancellation is delivered in an iteration \<open>i\<close> that the run
  has started, the supervisor has returned, iteration \<open>i\<close> is the last one, the sleeps are
  those of the failed runs up to \<open>i\<close>, and a longer observation of the run shows nothing more.
\<close>

theorem cancellation_stops_supervisor:
  assumes "schedule \<noteq> []"
    and "async_repeat_until_cancelled schedule coroutine sleeps fuel = (status, num, log)"
    and "i < task_runs log"
    and "cancel_delivered coroutine sleeps i"
  shows "status = Returned
       \<and> task_runs log = Suc i
       \<and> length (backoff_sleeps log) = length (filter (\<lambda>j. failed (coroutine j)) [0..<Suc i])
       \<and> async_repeat_until_cancelled schedule coroutine sleeps (fuel + extra) = (Returned, num, log)"
proof -
  from assms(2) have loop: "repeat_loop schedule coroutine sleeps fuel 0
      (int (failures_before coroutine 0)) [] = (status, num, log)"
    by (simp add: async_repeat_until_cancelled_def failures_before_def)
  from repeat_loop_spec [OF assms(1) this] obtain m where
    "run_spec schedule coroutine sleeps fuel 0 [] status num log m" ..
  then have runs: "task_runs log = m"
    and sl: "backoff_sleeps log =
          map (\<lambda>j. backoff_interval schedule (consecutive_failures coroutine j))
            (filter (\<lambda>j. failed (coroutine j)) [0..<m])"
    and stop: "\<forall>j. 0 \<le> j \<and> j < 0 + m \<and> cancel_delivered coroutine sleeps j \<longrightarrow>
        status = Returned \<and> Suc j = 0 + m"
    by (simp_all add: run_spec_def task_runs_def)
  from assms(3,4) runs have "0 \<le> i \<and> i < 0 + m \<and> cancel_delivered coroutine sleeps i"
    by simp
  with stop have st: "status = Returned" and m: "Suc i = m"
    by auto
  from loop st have "repeat_loop schedule coroutine sleeps (fuel + extra) 0
      (int (failures_before coroutine 0)) [] = (status, num, log)"
    by (intro repeat_loop_stable) simp_all
  then have "async_repeat_until_cancelled schedule coroutine sleeps (fuel + extra) = (Returned, num, log)"
    by (simp add: async_repeat_until_cancelled_def failures_before_def st)
  with st m runs sl show ?thesis
    by simp
qed

theorem cancellation_stops_supervisor_witness:
  "[1, 2, 4] \<noteq> ([] :: int list)
   \<and> async_repeat_until_cancelled [1, 2, 4]
        (\<lambda>i. Some (Exception ''500'')) (\<lambda>i. if i = 1 then Some CancelledError else None)
        (Suc (Suc (Suc 0)))
      = (Returned, 2, [TaskRun, BackoffSleep 1, TaskRun, BackoffSleep 2])
   \<and> cancel_delivered (\<lambda>i. Some (Exception ''500'')) (\<lambda>i. if i = 1 then Some CancelledError else None) 1
   \<and> task_runs [TaskRun, BackoffSleep 1, TaskRun, BackoffSleep 2] = Suc 1
   \<and> async_repeat_until_cancelled [1, 2, 4]
        (\<lambda>i. Some (Exception ''500'')) (\<lambda>i. if i = 1 then Some CancelledError else None)
        (Suc (Suc (Suc 0)) + 7)
      = (Returned, 2, [TaskRun, BackoffSleep 1, TaskRun, BackoffSleep 2])"
proof -
  have ne: "[1, 2, 4] \<noteq> ([] :: int list)"
    by simp
  have run: "async_repeat_until_cancelled [1, 2, 4]
        (\<lambda>i. Some (Exception ''500'')) (\<lambda>i. if i = 1 then Some CancelledError else None)
        (Suc (Suc (Suc 0)))
      = (Returned, 2, [TaskRun, BackoffSleep 1, TaskRun, BackoffSleep 2])"
    by (simp add: async_repeat_until_cancelled_def py_index_def)
  have started: "1 < task_runs [TaskRun, BackoffSleep 1, TaskRun, BackoffSleep 2]"
    by (simp add: task_runs_def)
  have cancel: "cancel_delivered (\<lambda>i. Some (Exception ''500''))
      (\<lambda>i. if i = 1 then Some CancelledError else None) 1"
    by (simp add: cancel_delivered_def failed_def)
  from cancellation_stops_supervisor [OF ne run started cancel, where extra = 7] ne run cancel show ?thesis
    by blast
qed

subsection \<open>Running effects\<close>

lemma io_bind_return [simp]: "io_bind (io_return x) f = f x"
  by (rule ext) (simp add: io_bind_def io_return_def)

lemma io_bind_raise [simp]: "io_bind (io_raise e) f = io_raise e"
  by (rule ext) (simp add: io_bind_def io_raise_def)

lemma io_bind_Return: "m s = (Return a, s') \<Longrightarrow> io_bind m f s = f a s'"
  by (simp add: io_bind_def)

lemma io_bind_Raise: "m s = (Raise e, s') \<Longrightarrow> io_bind m f s = (Raise e, s')"
  by (simp add: io_bind_def)

lemma io_bind_Unfinished: "m s = (Unfinished, s') \<Longrightarrow> io_bind m f s = (Unfinished, s')"
  by (simp add: io_bind_def)

lemma es_request_trace: "trace (snd (es_request h req s)) = trace s @ [EsRequest req]"
  by (simp add: es_request_def io_bind_def perform_def expect_response_def io_return_def io_raise_def
      split: prod.splits sum.splits reply.splits result.splits)

lemma es_request_non_200_exception_trace:
  "trace (snd (es_request_non_200_exception h req s)) = trace s @ [EsRequest req]"
proof -
  obtain r s' where r: "es_request h req s = (r, s')"
    by (cases "es_request h req s")
  with es_request_trace [of h req s] have "trace s' = trace s @ [EsRequest req]"
    by simp
  with r show ?thesis
    by (cases r) (simp_all add: es_request_non_200_exception_def io_bind_def io_return_def io_raise_def)
qed



subsection \<open>The events a computation adds to the trace\<close>

lemma emitsI:
  "(\<And>s r s'. m s = (r, s') \<Longrightarrow> \<exists>evs. trace s' = trace s @ evs \<and> list_all P evs) \<Longrightarrow> emits P m"
  by (simp add: emits_def)

lemma emitsD:
  "emits P m \<Longrightarrow> m s = (r, s') \<Longrightarrow> \<exists>evs. trace s' = trace s @ evs \<and> list_all P evs"
  by (simp add: emits_def)

lemma emits_return [simp, intro]: "emits P (io_return x)"
  by (rule emitsI) (auto simp: io_return_def)

lemma emits_raise [simp, intro]: "emits P (io_raise e)"
  by (rule emitsI) (auto simp: io_raise_def)

lemma emits_unfinished [simp, intro]: "emits P io_unfinished"
  by (rule emitsI) (auto simp: io_unfinished_def)

lemma emits_lift [simp, intro]: "emits P (io_lift r)"
  by (cases r) (simp_all add: io_lift_def)

lemma emits_perform [intro]: "P ev \<Longrightarrow> emits P (perform h ev)"
  by (rule emitsI) (auto simp: perform_def split: prod.splits sum.splits)

lemma emits_bind [intro]:
  assumes "emits P m" and "\<And>a. emits P (f a)"
  shows "emits P (io_bind m f)"
proof (rule emitsI)
  fix s r s'
  assume run: "io_bind m f s = (r, s')"
  obtain r1 s1 where m: "m s = (r1, s1)"
    by (cases "m s")
  from emitsD [OF assms(1) m] obtain evs1 where 1: "trace s1 = trace s @ evs1" "list_all P evs1"
    by blast
  show "\<exists>evs. trace s' = trace s @ evs \<and> list_all P evs"
  proof (cases r1)
    case (Return a)
    with run m have "f a s1 = (r, s')"
      by (simp add: io_bind_def)
    from emitsD [OF assms(2) this] obtain evs2 where "trace s' = trace s1 @ evs2" "list_all P evs2"
      by blast
    with 1 have "trace s' = trace s @ (evs1 @ evs2) \<and> list_all P (evs1 @ evs2)"
      by simp
    then show ?thesis ..
  next
    case (Raise e)
    with run m 1 show ?thesis
      by (auto simp: io_bind_def)
  next
    case Unfinished
    with run m 1 show ?thesis
      by (auto simp: io_bind_def)
  qed
qed

lemma emits_except [intro]:
  assumes "emits P m" and "emits P handler"
  shows "emits P (io_except m e handler)"
proof (rule emitsI)
  fix s r s'
  assume run: "io_except m e handler s = (r, s')"
  obtain r1 s1 where m: "m s = (r1, s1)"
    by (cases "m s")
  from emitsD [OF assms(1) m] obtain evs1 where 1: "trace s1 = trace s @ evs1" "list_all P evs1"
    by blast
  show "\<exists>evs. trace s' = trace s @ evs \<and> list_all P evs"
  proof (cases "r1 = Raise e")
    case True
    with run m have "handler s1 = (r, s')"
      by (simp add: io_except_def)
    from emitsD [OF assms(2) this] obtain evs2 where "trace s' = trace s1 @ evs2" "list_all P evs2"
      by blast
    with 1 have "trace s' = trace s @ (evs1 @ evs2) \<and> list_all P (evs1 @ evs2)"
      by simp
    then show ?thesis ..
  next
    case False
    with run m have "s' = s1"
      by (cases r1) (auto simp: io_except_def split: if_splits)
    with 1 show ?thesis
      by auto
  qed
qed

lemma emits_expect [simp, intro]:
  "emits P (expect_done x)" "emits P (expect_response x)" "emits P (expect_bulk_items x)"
  "emits P (expect_href x)" "emits P (expect_seconds x)"
  by (cases x; simp add: expect_done_def expect_response_def expect_bulk_items_def
        expect_href_def expect_seconds_def)+

lemma emits_response_json [simp, intro]: "emits P (response_json r)"
  by (simp add: response_json_def split: option.splits)

lemma emits_use_updates_href [simp, intro]: "emits P (use_updates_href u)"
  by (simp add: use_updates_href_def split: option.splits)

lemma emits_gauge_set [simp, intro]: "emits P (gauge_set name labels v)"
  by (rule emitsI)
     (auto simp: gauge_set_def gauge_labels_def gauge_child_set_def io_bind_def split: json.splits)

lemma emits_if [intro]: "emits P a \<Longrightarrow> emits P b \<Longrightarrow> emits P (if c then a else b)"
  by simp

lemma emits_es_request: "P (EsRequest req) \<Longrightarrow> emits P (es_request h req)"
  unfolding es_request_def by (intro emits_bind emits_perform) simp_all

lemma emits_es_request_non_200_exception:
  "P (EsRequest req) \<Longrightarrow> emits P (es_request_non_200_exception h req)"
  unfolding es_request_non_200_exception_def
  by (intro emits_bind emits_es_request emits_if) simp_all

lemma emits_es_maybe_unvailable_metrics:
  "P (EsRequest req) \<Longrightarrow> emits P (es_maybe_unvailable_metrics h req)"
  unfolding es_maybe_unvailable_metrics_def
  by (intro emits_bind emits_es_request emits_if) simp_all

lemma emits_sleep: "P (Sleep interval) \<Longrightarrow> emits P (sleep h interval)"
  unfolding sleep_def by (intro emits_bind emits_perform) simp_all

lemma emits_get_old_index_names:
  "(\<And>req. rq_method req = GET \<Longrightarrow> P (EsRequest req)) \<Longrightarrow> emits P (get_old_index_names h)"
  unfolding get_old_index_names_def
  by (intro emits_bind emits_es_request_non_200_exception) simp_all

lemma emits_refresh_index:
  "(\<And>req. rq_method req = POST \<Longrightarrow> rq_path req = ''/'' @ index_name @ ''/_refresh'' \<Longrightarrow> P (EsRequest req))
   \<Longrightarrow> emits P (refresh_index h index_name)"
  unfolding refresh_index_def
  by (intro emits_bind emits_es_request_non_200_exception) simp_all

lemma emits_refresh_indexes:
  "(\<And>req index_name. rq_method req = POST \<Longrightarrow> rq_path req = ''/'' @ index_name @ ''/_refresh'' \<Longrightarrow> P (EsRequest req))
   \<Longrightarrow> emits P (refresh_indexes h index_names)"
  by (induction index_names) (auto intro!: emits_bind emits_refresh_index)

lemma emits_es_bulk:
  "(\<And>req. rq_method req = POST \<Longrightarrow> rq_path req = ''/_bulk'' \<Longrightarrow> P (EsRequest req))
   \<Longrightarrow> emits P (es_bulk h items)"
  unfolding es_bulk_def
  by (intro emits_if emits_bind emits_es_request_non_200_exception) simp_all

lemma emits_ingest_feed_page:
  assumes "\<And>req. rq_method req = POST \<Longrightarrow> rq_path req = ''/_bulk'' \<Longrightarrow> P (EsRequest req)"
    and "\<And>headers. P (FeedGet href headers)"
    and "\<And>page. P (FeedConvertToBulk page index_names)"
    and "\<And>page. P (FeedNextHref page)"
  shows "emits P (ingest_feed_page h feed index_names href)"
  unfolding ingest_feed_page_def get_feed_contents_def
  by (intro emits_bind emits_es_bulk emits_perform emits_if assms) simp_all


subsection \<open>C3: the cutover request\<close>

text \<open>
  C3: for every feed id and every new index name, the cutover is performed by exactly one
  \<open>_aliases\<close> request whose action list is a remove of the pattern
  \<open>activities__feed_id_<id>__*\<close> from the alias \<open>activities\<close> together with an add of the new
  index to that alias. Whatever the backend answers, \<open>add_remove_aliases_atomically\<close> adds
  exactly this one request to the trace.
\<close>

theorem cutover_is_one_aliases_request:
  "trace (snd (add_remove_aliases_atomically h index_name feed_unique_id s)) =
     trace s @
     [EsRequest \<lparr>rq_method = POST, rq_path = ''/_aliases'', rq_query = [],
        rq_headers = [(''Content-Type'', ''application/json'')],
        rq_payload = encode_utf8 (dumps False
          (JDict [(''actions'', JList [
             JDict [(''remove'', JDict [(''index'', JStr (''activities__feed_id_'' @ feed_unique_id @ ''__*'')),
                                        (''alias'', JStr ''activities'')])],
             JDict [(''add'', JDict [(''index'', JStr index_name), (''alias'', JStr ''activities'')])]])]))\<rparr>]"
proof -
  let ?req = "\<lparr>rq_method = POST, rq_path = ''/_aliases'', rq_query = [], rq_headers = json_headers,
            rq_payload = encode_utf8 (dumps False
              (alias_actions (ALIAS @ ''__feed_id_'' @ feed_unique_id @ ''__*'') index_name))\<rparr>"
  obtain r s' where r: "es_request_non_200_exception h ?req s = (r, s')"
    by (cases "es_request_non_200_exception h ?req s")
  with es_request_non_200_exception_trace [of h ?req s] have "trace s' = trace s @ [EsRequest ?req]"
    by simp
  with r have "trace (snd (add_remove_aliases_atomically h index_name feed_unique_id s)) =
      trace s @ [EsRequest ?req]"
    by (cases r) (simp_all add: add_remove_aliases_atomically_def Let_def io_bind_def io_return_def)
  then show ?thesis
    by (simp add: json_headers_def alias_actions_def ALIAS_def)
qed


theorem cutover_is_one_aliases_request_witness:
  "trace (snd (add_remove_aliases_atomically
      (\<lambda>ev w. (Inr (Response \<lparr>resp_status = 200, resp_text = ''{}'', resp_json = Some (JDict [])\<rparr>), w))
      ''activities__feed_id_F1__date_2018-11-05__timestamp_1541376000__batch_id_01ab00ff10__'' ''F1''
      \<lparr>world = (), trace = [], gauges = Map.empty\<rparr>)) =
   [EsRequest \<lparr>rq_method = POST, rq_path = ''/_aliases'', rq_query = [],
      rq_headers = [(''Content-Type'', ''application/json'')],
      rq_payload = ''{\"actions\": [{\"remove\": {\"index\": \"activities__feed_id_F1__*\", \"alias\": \"activities\"}}, {\"add\": {\"index\": \"activities__feed_id_F1__date_2018-11-05__timestamp_1541376000__batch_id_01ab00ff10__\", \"alias\": \"activities\"}}]}''\<rparr>]"
proof -
  have "encode_utf8 (dumps False
          (JDict [(''actions'', JList [
             JDict [(''remove'', JDict [(''index'', JStr (''activities__feed_id_'' @ ''F1'' @ ''__*'')),
                                        (''alias'', JStr ''activities'')])],
             JDict [(''add'', JDict [(''index'', JStr ''activities__feed_id_F1__date_2018-11-05__timestamp_1541376000__batch_id_01ab00ff10__''), (''alias'', JStr ''activities'')])]])])) =
     ''{\"actions\": [{\"remove\": {\"index\": \"activities__feed_id_F1__*\", \"alias\": \"activities\"}}, {\"add\": {\"index\": \"activities__feed_id_F1__date_2018-11-05__timestamp_1541376000__batch_id_01ab00ff10__\", \"alias\": \"activities\"}}]}''"
    by (simp add: dict_items_def encode_basestring_ascii_def escape_char_def encode_utf8_def)
  with cutover_is_one_aliases_request
    [of "\<lambda>ev w. (Inr (Response \<lparr>resp_status = 200, resp_text = ''{}'', resp_json = Some (JDict [])\<rparr>), w)"
        "''activities__feed_id_F1__date_2018-11-05__timestamp_1541376000__batch_id_01ab00ff10__''" "''F1''"
        "\<lparr>world = (), trace = [], gauges = Map.empty\<rparr>"]
  show ?thesis
    by simp
qed

subsection \<open>C6: the targets of an updates pass\<close>

lemma indexes_matching_feeds_single:
  "indexes_matching_feeds index_names [feed_unique_id] =
     filter (\<lambda>index_name. sublist (ALIAS @ ''__feed_id_'' @ feed_unique_id @ ''__'') index_name) index_names"
  by (simp add: indexes_matching_feeds_def indexes_matching_feed_def flatten_def)

lemma emits_updates_pages:
  "emits (converts_into index_names) (updates_pages h fuel feed index_names href updates_href)"
proof (induction fuel arbitrary: href updates_href)
  case 0
  show ?case by simp
next
  case (Suc fuel)
  have "emits (converts_into index_names) (ingest_feed_page h feed index_names (the href))"
    by (rule emits_ingest_feed_page) (simp_all add: converts_into_def)
  with Suc show ?case
    by (auto intro!: emits_bind)
qed

text \<open>
  C6: in every updates pass for a feed, the set of indexes the bulk items are fanned out to is
  exactly the indexes, drawn from both the without-alias and the with-alias listings, whose
  names contain \<open>activities__feed_id_<id>__\<close> for that feed. Once the cursor and the listing
  have been read, every call of the adapter's \<open>convert_to_bulk_es\<close> in the pass gets the same
  target list, \<open>indexes_matching_feeds (without_alias + with_alias) [id]\<close>, whose elements are
  exactly those names.
\<close>

theorem updates_fan_out_targets:
  assumes url: "io_bind (perform h (GetFeedUpdatesUrl (unique_id feed))) expect_href s = (Return href, s1)"
      and listing: "get_old_index_names h s1 = (Return (without_alias, with_alias), s2)"
      and run: "ingest_feed_updates h fuel feed s = (r, s')"
  shows "\<exists>evs. trace s' = trace s @ evs \<and>
          (\<forall>page index_names. FeedConvertToBulk page index_names \<in> set evs \<longrightarrow>
             index_names = indexes_matching_feeds (without_alias @ with_alias) [unique_id feed]
           \<and> set index_names =
               {index_name \<in> set without_alias \<union> set with_alias.
                  sublist (''activities__feed_id_'' @ unique_id feed @ ''__'') index_name})"
proof -
  let ?names = "indexes_matching_feeds (without_alias @ with_alias) [unique_id feed]"
  let ?P = "converts_into ?names"
  let ?rest = "io_bind (updates_pages h fuel feed ?names href None) (\<lambda>updates_href.
     io_bind (refresh_indexes h (indexes_matching_feeds with_alias [unique_id feed])) (\<lambda>_.
     io_bind (use_updates_href updates_href) (\<lambda>url.
     io_bind (io_bind (perform h (SetFeedUpdatesUrl (unique_id feed) url)) expect_done) (\<lambda>_.
     sleep h UPDATES_INTERVAL))))"
  note b1 = io_bind_Return [of "io_bind (perform h (GetFeedUpdatesUrl (unique_id feed))) expect_href"
      s href s1, OF url]
  note b2 = io_bind_Return [of "get_old_index_names h" s1 "(without_alias, with_alias)" s2, OF listing]
  have "ingest_feed_updates h fuel feed s = ?rest s2"
    unfolding ingest_feed_updates_def by (simp only: b1 b2 fst_conv snd_conv)
  with run have rest: "?rest s2 = (r, s')"
    by simp
  have "emits ?P (io_bind (perform h (GetFeedUpdatesUrl (unique_id feed))) expect_href)"
    by (intro emits_bind emits_perform) (simp_all add: converts_into_def)
  from emitsD [OF this url] obtain e0 where e0: "trace s1 = trace s @ e0" "list_all ?P e0"
    by blast
  have "emits ?P (get_old_index_names h)"
    by (rule emits_get_old_index_names) (simp add: converts_into_def)
  from emitsD [OF this listing] obtain e1 where e1: "trace s2 = trace s1 @ e1" "list_all ?P e1"
    by blast
  have "emits ?P ?rest"
    by (intro emits_bind emits_updates_pages emits_refresh_indexes emits_perform emits_sleep)
       (simp_all add: converts_into_def)
  from emitsD [OF this rest] obtain e2 where e2: "trace s' = trace s2 @ e2" "list_all ?P e2"
    by blast
  from e0 e1 e2 have tr: "trace s' = trace s @ (e0 @ e1 @ e2)" and all: "list_all ?P (e0 @ e1 @ e2)"
    by simp_all
  have names: "set ?names = {index_name \<in> set without_alias \<union> set with_alias.
                  sublist (''activities__feed_id_'' @ unique_id feed @ ''__'') index_name}"
    by (auto simp: indexes_matching_feeds_single ALIAS_def)
  have "\<forall>page index_names. FeedConvertToBulk page index_names \<in> set (e0 @ e1 @ e2) \<longrightarrow>
             index_names = ?names \<and> set index_names =
               {index_name \<in> set without_alias \<union> set with_alias.
                  sublist (''activities__feed_id_'' @ unique_id feed @ ''__'') index_name}"
  proof (intro allI impI)
    fix page index_names
    assume "FeedConvertToBulk page index_names \<in> set (e0 @ e1 @ e2)"
    with all have "converts_into ?names (FeedConvertToBulk page index_names)"
      by (simp only: list_all_iff)
    then have "index_names = ?names"
      by (simp add: converts_into_def)
    with names show "index_names = ?names \<and> set index_names =
               {index_name \<in> set without_alias \<union> set with_alias.
                  sublist (''activities__feed_id_'' @ unique_id feed @ ''__'') index_name}"
      by simp
  qed
  with tr show ?thesis
    by blast
qed


theorem updates_fan_out_targets_witness:
  "FeedConvertToBulk (JDict [(''orderedItems'', JList [JDict [(''id'', JStr ''a'')]])])
      [''activities__feed_id_F1__new__'', ''activities__feed_id_F1__old__'']
     \<in> set (trace (snd (ingest_feed_updates example_world (Suc (Suc 0)) example_feed initial_state)))
   \<and> set [''activities__feed_id_F1__new__'', ''activities__feed_id_F1__old__''] =
       {index_name \<in> set [''activities__feed_id_F1__new__''] \<union>
                       set [''activities__feed_id_F1__old__'', ''activities__feed_id_F2__x__''].
          sublist (''activities__feed_id_'' @ unique_id example_feed @ ''__'') index_name}"
proof -
  let ?s1 = "\<lparr>world = (), trace = [GetFeedUpdatesUrl ''F1''], gauges = Map.empty\<rparr>"
  let ?s2 = "\<lparr>world = (), trace = [GetFeedUpdatesUrl ''F1'',
       EsRequest \<lparr>rq_method = GET, rq_path = ''/_aliases'', rq_query = [],
         rq_headers = json_headers, rq_payload = []\<rparr>], gauges = Map.empty\<rparr>"
  let ?run = "ingest_feed_updates example_world (Suc (Suc 0)) example_feed initial_state"
  have url: "io_bind (perform example_world (GetFeedUpdatesUrl (unique_id example_feed))) expect_href
      initial_state = (Return (Some ''http://feed/2''), ?s1)"
    by (simp add: io_bind_def perform_def example_world_def expect_href_def io_return_def
        example_feed_def initial_state_def)
  have listing: "get_old_index_names example_world ?s1 =
     (Return ([''activities__feed_id_F1__new__''],
              [''activities__feed_id_F1__old__'', ''activities__feed_id_F2__x__'']), ?s2)"
    by (simp add: get_old_index_names_def es_request_non_200_exception_def es_request_def
        io_bind_def perform_def example_world_def expect_response_def io_return_def
        response_json_def example_listing_def io_lift_def json_items_def subscript_def truthy_def
        ALIAS_def)
  have run: "?run = (fst ?run, snd ?run)"
    by simp
  have mem: "FeedConvertToBulk (JDict [(''orderedItems'', JList [JDict [(''id'', JStr ''a'')]])])
      [''activities__feed_id_F1__new__'', ''activities__feed_id_F1__old__'']
     \<in> set (trace (snd ?run))"
    by (simp add: ingest_feed_updates_def io_bind_def
      get_old_index_names_def example_listing_def io_lift_def json_items_def subscript_def truthy_def
      indexes_matching_feeds_single ALIAS_def sublist_code example_feed_def json_headers_def
      ingest_feed_page_def get_feed_contents_def perform_def example_world_def expect_response_def
      io_return_def response_json_def expect_bulk_items_def es_bulk_def
      es_request_non_200_exception_def es_request_def expect_href_def href_truthy_def
      refresh_index_def use_updates_href_def expect_done_def sleep_def initial_state_def
      UPDATES_INTERVAL_def)
  from updates_fan_out_targets [OF url listing run] obtain evs where
    evs: "trace (snd ?run) = trace initial_state @ evs"
    and all: "\<forall>page index_names. FeedConvertToBulk page index_names \<in> set evs \<longrightarrow>
             index_names = indexes_matching_feeds
               ([''activities__feed_id_F1__new__''] @
                [''activities__feed_id_F1__old__'', ''activities__feed_id_F2__x__'']) [unique_id example_feed]
           \<and> set index_names =
               {index_name \<in> set [''activities__feed_id_F1__new__''] \<union>
                       set [''activities__feed_id_F1__old__'', ''activities__feed_id_F2__x__''].
                  sublist (''activities__feed_id_'' @ unique_id example_feed @ ''__'') index_name}"
    by blast
  from evs have "evs = trace (snd ?run)"
    by (simp add: initial_state_def)
  with mem all have "set [''activities__feed_id_F1__new__'', ''activities__feed_id_F1__old__''] =
       {index_name \<in> set [''activities__feed_id_F1__new__''] \<union>
                       set [''activities__feed_id_F1__old__'', ''activities__feed_id_F2__x__''].
          sublist (''activities__feed_id_'' @ unique_id example_feed @ ''__'') index_name}"
    by blast
  with mem show ?thesis
    by (rule conjI)
qed

subsection \<open>The world a computation leaves\<close>

lemma followsI:
  "(\<And>s r s'. m s = (r, s') \<Longrightarrow>
      \<exists>evs. trace s' = trace s @ evs \<and> list_all P evs \<and>
            world s' = fold (\<lambda>ev w. snd (h ev w)) evs (world s)) \<Longrightarrow> follows h P m"
  by (simp add: follows_def)

lemma followsD:
  "follows h P m \<Longrightarrow> m s = (r, s') \<Longrightarrow>
     \<exists>evs. trace s' = trace s @ evs \<and> list_all P evs \<and>
           world s' = fold (\<lambda>ev w. snd (h ev w)) evs (world s)"
  by (simp add: follows_def)

lemma follows_return [simp, intro]: "follows h P (io_return x)"
  by (rule followsI) (auto simp: io_return_def)

lemma follows_raise [simp, intro]: "follows h P (io_raise e)"
  by (rule followsI) (auto simp: io_raise_def)

lemma follows_unfinished [simp, intro]: "follows h P io_unfinished"
  by (rule followsI) (auto simp: io_unfinished_def)

lemma follows_lift [simp, intro]: "follows h P (io_lift r)"
  by (cases r) (simp_all add: io_lift_def)

lemma follows_perform [intro]: "P ev \<Longrightarrow> follows h P (perform h ev)"
proof (rule followsI)
  fix s r s'
  assume P: "P ev" and run: "perform h ev s = (r, s')"
  then have "trace s' = trace s @ [ev] \<and> list_all P [ev] \<and>
      world s' = fold (\<lambda>ev w. snd (h ev w)) [ev] (world s)"
    by (auto simp: perform_def split: prod.splits sum.splits)
  then show "\<exists>evs. trace s' = trace s @ evs \<and> list_all P evs \<and>
      world s' = fold (\<lambda>ev w. snd (h ev w)) evs (world s)" ..
qed

lemma follows_bind [intro]:
  assumes "follows h P m" and "\<And>a. follows h P (f a)"
  shows "follows h P (io_bind m f)"
proof (rule followsI)
  fix s r s'
  assume run: "io_bind m f s = (r, s')"
  obtain r1 s1 where m: "m s = (r1, s1)"
    by (cases "m s")
  from followsD [OF assms(1) m] obtain evs1 where 1: "trace s1 = trace s @ evs1" "list_all P evs1"
      "world s1 = fold (\<lambda>ev w. snd (h ev w)) evs1 (world s)"
    by blast
  show "\<exists>evs. trace s' = trace s @ evs \<and> list_all P evs \<and>
      world s' = fold (\<lambda>ev w. snd (h ev w)) evs (world s)"
  proof (cases r1)
    case (Return a)
    with run m have "f a s1 = (r, s')"
      by (simp add: io_bind_def)
    from followsD [OF assms(2) this] obtain evs2 where "trace s' = trace s1 @ evs2" "list_all P evs2"
        "world s' = fold (\<lambda>ev w. snd (h ev w)) evs2 (world s1)"
      by blast
    with 1 have "trace s' = trace s @ (evs1 @ evs2) \<and> list_all P (evs1 @ evs2) \<and>
        world s' = fold (\<lambda>ev w. snd (h ev w)) (evs1 @ evs2) (world s)"
      by simp
    then show ?thesis ..
  next
    case (Raise e)
    with run m have "s' = s1"
      by (simp add: io_bind_def)
    with 1 show ?thesis
      by blast
  next
    case Unfinished
    with run m have "s' = s1"
      by (simp add: io_bind_def)
    with 1 show ?thesis
      by blast
  qed
qed

lemma follows_expect [simp, intro]:
  "follows h P (expect_done x)" "follows h P (expect_response x)" "follows h P (expect_bulk_items x)"
  "follows h P (expect_href x)" "follows h P (expect_seconds x)"
  by (cases x; simp add: expect_done_def expect_response_def expect_bulk_items_def
        expect_href_def expect_seconds_def)+

lemma follows_response_json [simp, intro]: "follows h P (response_json r)"
  by (simp add: response_json_def split: option.splits)

lemma follows_if [intro]: "follows h P a \<Longrightarrow> follows h P b \<Longrightarrow> follows h P (if c then a else b)"
  by simp

lemma follows_es_request_non_200_exception:
  "P (EsRequest req) \<Longrightarrow> follows h P (es_request_non_200_exception h req)"
  unfolding es_request_non_200_exception_def es_request_def
  by (intro follows_bind follows_perform follows_if) simp_all

lemma follows_sleep: "P (Sleep interval) \<Longrightarrow> follows h P (sleep h interval)"
  unfolding sleep_def by (intro follows_bind follows_perform) simp_all

lemma follows_get_old_index_names:
  "(\<And>req. rq_method req = GET \<Longrightarrow> P (EsRequest req)) \<Longrightarrow> follows h P (get_old_index_names h)"
  unfolding get_old_index_names_def
  by (intro follows_bind follows_es_request_non_200_exception) simp_all

lemma follows_delete_indexes:
  "(\<And>req. rq_method req = DELETE \<Longrightarrow> tl (rq_path req) \<in> set index_names \<Longrightarrow> P (EsRequest req))
   \<Longrightarrow> follows h P (delete_indexes h index_names)"
  by (induction index_names) (auto intro!: follows_bind follows_es_request_non_200_exception)

lemma follows_create_index:
  "(\<And>req. rq_method req = PUT \<Longrightarrow> P (EsRequest req)) \<Longrightarrow> follows h P (create_index h index_name)"
  unfolding create_index_def Let_def
  by (intro follows_bind follows_es_request_non_200_exception) simp_all

lemma follows_refresh_index:
  "(\<And>req. rq_method req = POST \<Longrightarrow> rq_path req = ''/'' @ index_name @ ''/_refresh'' \<Longrightarrow> P (EsRequest req))
   \<Longrightarrow> follows h P (refresh_index h index_name)"
  unfolding refresh_index_def
  by (intro follows_bind follows_es_request_non_200_exception) simp_all

lemma follows_es_bulk:
  "(\<And>req. rq_method req = POST \<Longrightarrow> rq_path req = ''/_bulk'' \<Longrightarrow> P (EsRequest req))
   \<Longrightarrow> follows h P (es_bulk h items)"
  unfolding es_bulk_def
  by (intro follows_if follows_bind follows_es_request_non_200_exception) simp_all

lemma follows_ingest_feed_page:
  assumes "\<And>req. rq_method req = POST \<Longrightarrow> rq_path req = ''/_bulk'' \<Longrightarrow> P (EsRequest req)"
    and "\<And>headers. P (FeedGet href headers)"
    and "\<And>page. P (FeedConvertToBulk page index_names)"
    and "\<And>page. P (FeedNextHref page)"
  shows "follows h P (ingest_feed_page h feed index_names href)"
  unfolding ingest_feed_page_def get_feed_contents_def
  by (intro follows_bind follows_es_bulk follows_perform follows_if assms) simp_all

lemma follows_full_pages:
  assumes "\<And>req. rq_method req = POST \<Longrightarrow> rq_path req = ''/_bulk'' \<Longrightarrow> P (EsRequest req)"
    and "\<And>href headers. P (FeedGet href headers)"
    and "\<And>page. P (FeedConvertToBulk page [index_name])"
    and "\<And>page. P (FeedNextHref page)"
    and "\<And>interval. P (Sleep interval)"
  shows "follows h P (full_pages h fuel feed index_name href updates_href)"
proof (induction fuel arbitrary: href updates_href)
  case 0
  show ?case by simp
next
  case (Suc fuel)
  have "follows h P (ingest_feed_page h feed [index_name] (the href))"
    by (rule follows_ingest_feed_page) (simp_all add: assms)
  with Suc show ?case
    by (auto intro!: follows_bind follows_sleep assms)
qed


subsection \<open>C2: a failure before the cutover\<close>

lemma fold_keeps_alias:
  assumes other: "\<forall>ev w. \<not> alias_operation ev \<and> \<not> deletion ev \<longrightarrow> aliased (snd (h ev w)) = aliased w"
    and delete: "\<forall>req w. rq_method req = DELETE \<and> tl (rq_path req) \<notin> aliased w \<longrightarrow>
                   aliased (snd (h (EsRequest req) w)) = aliased w"
    and names: "\<forall>index_name\<in>set index_names. index_name \<notin> aliased w"
    and evs: "list_all (scrubs index_names) evs"
  shows "aliased (fold (\<lambda>ev w. snd (h ev w)) evs w) = aliased w"
  using evs names
proof (induction evs arbitrary: w)
  case Nil
  show ?case by simp
next
  case (Cons ev evs)
  from Cons.prems have ev: "scrubs index_names ev" and rest: "list_all (scrubs index_names) evs"
    by simp_all
  have step: "aliased (snd (h ev w)) = aliased w"
  proof (cases "deletion ev")
    case True
    then obtain req where req: "ev = EsRequest req" "rq_method req = DELETE"
      by (auto simp: deletion_def split: event.splits)
    with ev have "tl (rq_path req) \<in> set index_names"
      by (simp add: scrubs_def)
    with Cons.prems(2) have "tl (rq_path req) \<notin> aliased w"
      by blast
    with delete req show ?thesis
      by blast
  next
    case False
    moreover from ev have "\<not> alias_operation ev"
      by (simp add: scrubs_def)
    ultimately show ?thesis
      using other by blast
  qed
  with Cons.prems(2) have "\<forall>index_name\<in>set index_names. index_name \<notin> aliased (snd (h ev w))"
    by simp
  from Cons.IH [OF rest this] step show ?case
    by simp
qed

lemma scrubs_not_alias_operation: "list_all (scrubs index_names) evs \<Longrightarrow> list_all (\<lambda>ev. \<not> alias_operation ev) evs"
  by (induction evs) (simp_all add: scrubs_def)

lemma es_request_non_200_exception_Return:
  assumes "es_request_non_200_exception h req s = (Return r, s')"
  shows "h (EsRequest req) (world s) = (Inr (Response r), world s')"
proof -
  obtain x w' where h: "h (EsRequest req) (world s) = (x, w')"
    by (cases "h (EsRequest req) (world s)")
  show ?thesis
  proof (cases x)
    case (Inl e)
    with assms h show ?thesis
      by (simp add: es_request_non_200_exception_def es_request_def io_bind_def perform_def)
  next
    case (Inr y)
    with assms h show ?thesis
      by (cases y; cases "resp_status (case y of Response z \<Rightarrow> z) = 200")
         (auto simp: es_request_non_200_exception_def es_request_def io_bind_def perform_def
            expect_response_def io_return_def io_raise_def)
  qed
qed

lemma listing_Return:
  assumes "io_bind (response_json r) (\<lambda>indexes.
         io_bind (io_lift (json_items indexes)) (\<lambda>index_items.
         io_bind (io_lift (select_indexes False index_items)) (\<lambda>without_alias.
         io_bind (io_lift (select_indexes True index_items)) (\<lambda>with_alias.
         io_return (without_alias, with_alias))))) s = (Return old_index_names, s')"
  shows "s' = s \<and> listed_without_alias r = fst old_index_names"
  using assms
  by (auto simp: listed_without_alias_def response_json_def io_bind_def io_lift_def io_return_def
        io_raise_def split: option.splits sum.splits)

lemma get_old_index_names_listing:
  assumes "get_old_index_names h s = (Return old_index_names, s')"
  shows "\<exists>req r. rq_method req = GET \<and> rq_path req = ''/_aliases'' \<and>
           h (EsRequest req) (world s) = (Inr (Response r), world s') \<and>
           listed_without_alias r = fst old_index_names"
proof -
  let ?req = "\<lparr>rq_method = GET, rq_path = ''/_aliases'', rq_query = [], rq_headers = json_headers,
        rq_payload = []\<rparr>"
  let ?rest = "\<lambda>results. io_bind (response_json results) (\<lambda>indexes.
         io_bind (io_lift (json_items indexes)) (\<lambda>index_items.
         io_bind (io_lift (select_indexes False index_items)) (\<lambda>without_alias.
         io_bind (io_lift (select_indexes True index_items)) (\<lambda>with_alias.
         io_return (without_alias, with_alias)))))"
  obtain r1 s1 where e: "es_request_non_200_exception h ?req s = (r1, s1)"
    by (cases "es_request_non_200_exception h ?req s")
  from assms have run: "io_bind (es_request_non_200_exception h ?req) ?rest s = (Return old_index_names, s')"
    by (simp only: get_old_index_names_def)
  from run e obtain r where r: "r1 = Return r" and rest: "?rest r s1 = (Return old_index_names, s')"
    by (cases r1) (simp_all add: io_bind_def)
  from listing_Return [OF rest] have s': "s' = s1" and l: "listed_without_alias r = fst old_index_names"
    by simp_all
  from es_request_non_200_exception_Return [of h ?req s r s1] e r s'
  have "h (EsRequest ?req) (world s) = (Inr (Response r), world s')"
    by simp
  with l have "rq_method ?req = GET \<and> rq_path ?req = ''/_aliases'' \<and>
           h (EsRequest ?req) (world s) = (Inr (Response r), world s') \<and>
           listed_without_alias r = fst old_index_names"
    by simp
  then show ?thesis
    by blast
qed

lemma indexes_matching_feeds_subset:
  "set (indexes_matching_feeds index_names ids) \<subseteq> set index_names"
  by (auto simp: indexes_matching_feeds_def indexes_matching_feed_def flatten_def)


lemma alias_kept_trans: "alias_kept aliased s s1 \<Longrightarrow> alias_kept aliased s1 s' \<Longrightarrow> alias_kept aliased s s'"
proof -
  assume a: "alias_kept aliased s s1" and b: "alias_kept aliased s1 s'"
  from a obtain e1 where e1: "trace s1 = trace s @ e1" "list_all (\<lambda>ev. \<not> alias_operation ev) e1"
    and w1: "aliased (world s1) = aliased (world s)"
    unfolding alias_kept_def by blast
  from b obtain e2 where e2: "trace s' = trace s1 @ e2" "list_all (\<lambda>ev. \<not> alias_operation ev) e2"
    and w2: "aliased (world s') = aliased (world s1)"
    unfolding alias_kept_def by blast
  from e1 e2 have "trace s' = trace s @ (e1 @ e2) \<and> list_all (\<lambda>ev. \<not> alias_operation ev) (e1 @ e2)"
    by simp
  then have "\<exists>evs. trace s' = trace s @ evs \<and> list_all (\<lambda>ev. \<not> alias_operation ev) evs" ..
  with w1 w2 show ?thesis
    by (simp add: alias_kept_def)
qed

lemma follows_alias_kept:
  assumes other: "\<forall>ev w. \<not> alias_operation ev \<and> \<not> deletion ev \<longrightarrow> aliased (snd (h ev w)) = aliased w"
    and delete: "\<forall>req w. rq_method req = DELETE \<and> tl (rq_path req) \<notin> aliased w \<longrightarrow>
                   aliased (snd (h (EsRequest req) w)) = aliased w"
    and m: "follows h (scrubs index_names) m"
    and names: "\<forall>index_name\<in>set index_names. index_name \<notin> aliased (world s)"
    and run: "m s = (r, s')"
  shows "alias_kept aliased s s'"
proof -
  from followsD [OF m run] obtain evs where evs: "trace s' = trace s @ evs"
      "list_all (scrubs index_names) evs" "world s' = fold (\<lambda>ev w. snd (h ev w)) evs (world s)"
    by blast
  from fold_keeps_alias [OF other delete names evs(2)] evs(3)
  have "aliased (world s') = aliased (world s)"
    by simp
  moreover from evs(1) scrubs_not_alias_operation [OF evs(2)]
  have "\<exists>evs. trace s' = trace s @ evs \<and> list_all (\<lambda>ev. \<not> alias_operation ev) evs"
    by blast
  ultimately show ?thesis
    by (simp add: alias_kept_def)
qed

lemma refresh_path_not_aliases: "''/'' @ index_name @ ''/_refresh'' \<noteq> ''/_aliases''"
proof
  assume "''/'' @ index_name @ ''/_refresh'' = ''/_aliases''"
  then have "last (''/'' @ index_name @ ''/_refresh'') = last ''/_aliases''"
    by (rule arg_cong)
  then show False
    by simp
qed

lemma follows_after_listing:
  "follows h (scrubs index_names)
     (io_bind (delete_indexes h index_names) (\<lambda>_.
      io_bind (create_index h index_name) (\<lambda>_.
      io_bind (full_pages h fuel feed index_name href None) (\<lambda>updates_href.
      io_bind (refresh_index h index_name) (\<lambda>_.
      io_return updates_href)))))"
  by (intro follows_bind follows_delete_indexes follows_create_index follows_full_pages
        follows_refresh_index follows_return)
     (simp_all add: scrubs_def alias_operation_def refresh_path_not_aliases)

lemma before_cutover_alias_kept:
  assumes other: "\<forall>ev w. \<not> alias_operation ev \<and> \<not> deletion ev \<longrightarrow> aliased (snd (h ev w)) = aliased w"
    and delete: "\<forall>req w. rq_method req = DELETE \<and> tl (rq_path req) \<notin> aliased w \<longrightarrow>
                   aliased (snd (h (EsRequest req) w)) = aliased w"
    and listing: "\<forall>req w r. rq_method req = GET \<and> rq_path req = ''/_aliases'' \<and>
                   fst (h (EsRequest req) w) = Inr (Response r) \<longrightarrow>
                   (\<forall>index_name\<in>set (listed_without_alias r).
                      index_name \<notin> aliased (snd (h (EsRequest req) w)))"
    and run: "ingest_feed_full_before_cutover h fuel feed today now urandom5 s = (r, s')"
  shows "alias_kept aliased s s'"
proof -
  let ?init = "io_bind (perform h (SetFeedUpdatesSeedUrlInit (unique_id feed))) expect_done"
  let ?name = "get_new_index_name (unique_id feed) today now urandom5"
  let ?tail = "\<lambda>old_index_names. io_bind (delete_indexes h
        (indexes_matching_feeds (fst old_index_names) [unique_id feed])) (\<lambda>_.
     io_bind (create_index h ?name) (\<lambda>_.
     io_bind (full_pages h fuel feed ?name (Some (seed feed)) None) (\<lambda>updates_href.
     io_bind (refresh_index h ?name) (\<lambda>_.
     io_return updates_href))))"
  from run have run: "io_bind ?init (\<lambda>_. io_bind (get_old_index_names h) ?tail) s = (r, s')"
    by (simp only: ingest_feed_full_before_cutover_def)
  have none: "\<forall>index_name\<in>set []. index_name \<notin> aliased (world t)" for t :: "'a state"
    by simp
  obtain r0 s0 where init: "?init s = (r0, s0)"
    by (cases "?init s")
  have "follows h (scrubs []) ?init"
    by (intro follows_bind follows_perform) (simp_all add: scrubs_def alias_operation_def)
  from follows_alias_kept [OF other delete this none init] have k0: "alias_kept aliased s s0" .
  show ?thesis
  proof (cases r0)
    case (Return u)
    with run init have run1: "io_bind (get_old_index_names h) ?tail s0 = (r, s')"
      by (simp add: io_bind_def)
    obtain r1 s1 where old: "get_old_index_names h s0 = (r1, s1)"
      by (cases "get_old_index_names h s0")
    have "follows h (scrubs []) (get_old_index_names h)"
      by (rule follows_get_old_index_names) (simp add: scrubs_def alias_operation_def)
    from follows_alias_kept [OF other delete this none old] have k1: "alias_kept aliased s0 s1" .
    show ?thesis
    proof (cases r1)
      case (Return old_index_names)
      let ?names = "indexes_matching_feeds (fst old_index_names) [unique_id feed]"
      from Return run1 old have run2: "?tail old_index_names s1 = (r, s')"
        by (simp add: io_bind_def)
      from Return old have "get_old_index_names h s0 = (Return old_index_names, s1)"
        by simp
      from get_old_index_names_listing [OF this] obtain req resp where
        req: "rq_method req = GET" "rq_path req = ''/_aliases''"
          "h (EsRequest req) (world s0) = (Inr (Response resp), world s1)"
          "listed_without_alias resp = fst old_index_names"
        by blast
      from req(3) have "fst (h (EsRequest req) (world s0)) = Inr (Response resp)"
        and w1: "snd (h (EsRequest req) (world s0)) = world s1"
        by simp_all
      with listing req(1,2) have "\<forall>index_name\<in>set (listed_without_alias resp).
          index_name \<notin> aliased (snd (h (EsRequest req) (world s0)))"
        by blast
      with w1 req(4) have "\<forall>index_name\<in>set (fst old_index_names). index_name \<notin> aliased (world s1)"
        by simp
      with indexes_matching_feeds_subset [of "fst old_index_names" "[unique_id feed]"]
      have names: "\<forall>index_name\<in>set ?names. index_name \<notin> aliased (world s1)"
        by blast
      from follows_alias_kept [OF other delete follows_after_listing names run2]
      have "alias_kept aliased s1 s'" .
      with k0 k1 show ?thesis
        by (blast intro: alias_kept_trans)
    next
      case (Raise e)
      with run1 old have "s' = s1"
        by (simp add: io_bind_def)
      with k0 k1 show ?thesis
        by (blast intro: alias_kept_trans)
    next
      case Unfinished
      with run1 old have "s' = s1"
        by (simp add: io_bind_def)
      with k0 k1 show ?thesis
        by (blast intro: alias_kept_trans)
    qed
  next
    case (Raise e)
    with run init have "s' = s0"
      by (simp add: io_bind_def)
    with k0 show ?thesis
      by simp
  next
    case Unfinished
    with run init have "s' = s0"
      by (simp add: io_bind_def)
    with k0 show ?thesis
      by simp
  qed
qed

lemma io_bind_assoc: "io_bind (io_bind m f) g = io_bind m (\<lambda>a. io_bind (f a) g)"
  by (rule ext) (simp add: io_bind_def split: prod.splits result.splits)

lemma ingest_feed_full_split:
  "ingest_feed_full h fuel feed today now urandom5 =
     io_bind (ingest_feed_full_before_cutover h fuel feed today now urandom5) (\<lambda>updates_href.
     io_bind (add_remove_aliases_atomically h
        (get_new_index_name (unique_id feed) today now urandom5) (unique_id feed)) (\<lambda>_.
     io_bind (use_updates_href updates_href) (\<lambda>url.
     io_bind (perform h (SetFeedUpdatesSeedUrl (unique_id feed) url)) expect_done)))"
  by (simp add: ingest_feed_full_def ingest_feed_full_before_cutover_def io_bind_assoc)


lemma select_indexes_listing:
  "select_indexes False (map (\<lambda>index_name.
       (index_name, JDict [(''aliases'',
          JDict (if index_name \<in> members then [(ALIAS, JDict [])] else []))])) index_names) =
     Inr (filter (\<lambda>index_name. prefix (ALIAS @ ''_'') index_name \<and> index_name \<notin> members) index_names)"
  by (induction index_names) (simp_all add: subscript_def truthy_def)

lemma listed_without_alias_listing_of:
  "listed_without_alias \<lparr>resp_status = code, resp_text = body, resp_json = Some (listing_of w)\<rparr> =
     filter (\<lambda>index_name. prefix (ALIAS @ ''_'') index_name \<and> index_name \<notin> set (snd w)) (fst w)"
  by (simp add: listed_without_alias_def listing_of_def json_items_def select_indexes_listing)

text \<open>
  Claim C2. Take a backend in which the members of the alias change only by an alias operation
  or by deleting a member, and whose listing is truthful about the indexes it reports without
  an alias. If a run of \<open>ingest_feed_full\<close> raises in one of the steps before the cutover
  (cursor init, scrub, index creation, page loop, refresh), then the whole run raises the same
  exception in the same state, no alias operation is among the events of the run, the members
  of the alias are the ones from before the run, and the new index, not a member before, is
  not a member after.
\<close>

theorem failure_before_cutover_keeps_alias:
  assumes other: "\<forall>ev w. \<not> alias_operation ev \<and> \<not> deletion ev \<longrightarrow> aliased (snd (h ev w)) = aliased w"
    and delete: "\<forall>req w. rq_method req = DELETE \<and> tl (rq_path req) \<notin> aliased w \<longrightarrow>
                   aliased (snd (h (EsRequest req) w)) = aliased w"
    and listing: "\<forall>req w r. rq_method req = GET \<and> rq_path req = ''/_aliases'' \<and>
                   fst (h (EsRequest req) w) = Inr (Response r) \<longrightarrow>
                   (\<forall>index_name\<in>set (listed_without_alias r).
                      index_name \<notin> aliased (snd (h (EsRequest req) w)))"
    and fresh: "get_new_index_name (unique_id feed) today now urandom5 \<notin> aliased (world s)"
    and raises: "ingest_feed_full_before_cutover h fuel feed today now urandom5 s = (Raise e, s')"
  shows "ingest_feed_full h fuel feed today now urandom5 s = (Raise e, s')
     \<and> (\<exists>evs. trace s' = trace s @ evs \<and> list_all (\<lambda>ev. \<not> alias_operation ev) evs)
     \<and> aliased (world s') = aliased (world s)
     \<and> get_new_index_name (unique_id feed) today now urandom5 \<notin> aliased (world s')"
proof -
  from raises have "ingest_feed_full h fuel feed today now urandom5 s = (Raise e, s')"
    by (simp only: ingest_feed_full_split io_bind_Raise)
  moreover from before_cutover_alias_kept [OF other delete listing raises]
  have "(\<exists>evs. trace s' = trace s @ evs \<and> list_all (\<lambda>ev. \<not> alias_operation ev) evs)
     \<and> aliased (world s') = aliased (world s)"
    by (simp only: alias_kept_def)
  ultimately show ?thesis
    using fresh by simp
qed

theorem failure_before_cutover_keeps_alias_witness:
  "\<exists>s'. ingest_feed_full store_backend (Suc 0) example_feed \<lparr>year = 2018, month = 11, day = 5\<rparr>
          1541376000 [CHR 0x01, CHR 0xAB, CHR 0x00, CHR 0xFF, CHR 0x10] example_store =
          (Raise (Exception ''connection refused''), s')
     \<and> store_aliased (world s') = {''activities__feed_id_F1__old__'', ''activities__feed_id_F2__x__''}
     \<and> fst (world s') =
          [''activities__feed_id_F1__old__'', ''activities__feed_id_F2__x__'',
           get_new_index_name ''F1'' \<lparr>year = 2018, month = 11, day = 5\<rparr> 1541376000
             [CHR 0x01, CHR 0xAB, CHR 0x00, CHR 0xFF, CHR 0x10]]"
proof -
  let ?today = "\<lparr>year = 2018, month = 11, day = 5\<rparr>"
  let ?u = "[CHR 0x01, CHR 0xAB, CHR 0x00, CHR 0xFF, CHR 0x10]"
  let ?before = "ingest_feed_full_before_cutover store_backend (Suc 0) example_feed ?today 1541376000 ?u
      example_store"
  have other: "\<forall>ev w. \<not> alias_operation ev \<and> \<not> deletion ev \<longrightarrow>
      store_aliased (snd (store_backend ev w)) = store_aliased w"
    by (auto simp: store_backend_def store_aliased_def alias_operation_def deletion_def
        split: event.splits)
  have delete: "\<forall>req w. rq_method req = DELETE \<and> tl (rq_path req) \<notin> store_aliased w \<longrightarrow>
      store_aliased (snd (store_backend (EsRequest req) w)) = store_aliased w"
    by (simp add: store_backend_def store_aliased_def)
  have listing: "\<forall>req w r. rq_method req = GET \<and> rq_path req = ''/_aliases'' \<and>
                   fst (store_backend (EsRequest req) w) = Inr (Response r) \<longrightarrow>
                   (\<forall>index_name\<in>set (listed_without_alias r).
                      index_name \<notin> store_aliased (snd (store_backend (EsRequest req) w)))"
    by (auto simp: store_backend_def store_aliased_def listed_without_alias_listing_of)
  have fresh: "get_new_index_name (unique_id example_feed) ?today 1541376000 ?u
      \<notin> store_aliased (world example_store)"
    by (simp add: get_new_index_name_def store_aliased_def example_store_def example_feed_def ALIAS_def)
  have run: "fst ?before = Raise (Exception ''connection refused'')"
    and names: "fst (world (snd ?before)) =
          [''activities__feed_id_F1__old__'', ''activities__feed_id_F2__x__'',
           get_new_index_name ''F1'' ?today 1541376000 ?u]"
    by (simp_all add: ingest_feed_full_before_cutover_def io_bind_def
      get_old_index_names_def listing_of_def io_lift_def json_items_def subscript_def truthy_def
      indexes_matching_feeds_single ALIAS_def sublist_code example_feed_def json_headers_def
      create_index_def
      ingest_feed_page_def get_feed_contents_def perform_def store_backend_def expect_response_def
      io_return_def io_raise_def response_json_def
      es_request_non_200_exception_def es_request_def href_truthy_def
      expect_done_def example_store_def)
  from run have raises: "?before = (Raise (Exception ''connection refused''), snd ?before)"
    by (simp add: prod_eq_iff)
  from failure_before_cutover_keeps_alias [OF other delete listing fresh raises]
  have "ingest_feed_full store_backend (Suc 0) example_feed ?today 1541376000 ?u example_store =
          (Raise (Exception ''connection refused''), snd ?before)"
    and "store_aliased (world (snd ?before)) = store_aliased (world example_store)"
    by blast+
  moreover have "store_aliased (world example_store) =
      {''activities__feed_id_F1__old__'', ''activities__feed_id_F2__x__''}"
    by (simp add: store_aliased_def example_store_def)
  ultimately show ?thesis
    using names by auto
qed


subsection \<open>Count requests\<close>

lemma es_maybe_unvailable_metrics_ok:
  assumes "h (EsRequest req) (world s) = (Inr (Response r), w')" and "resp_status r = 200"
  shows "es_maybe_unvailable_metrics h req s = (Return r, s\<lparr>world := w', trace := trace s @ [EsRequest req]\<rparr>)"
  using assms
  by (simp add: es_maybe_unvailable_metrics_def es_request_def io_bind_def perform_def
      expect_response_def io_return_def)

lemma es_maybe_unvailable_metrics_503:
  assumes "h (EsRequest req) (world s) = (Inr (Response r), w')" and "resp_status r = 503"
  shows "es_maybe_unvailable_metrics h req s =
    (Raise ESMetricsUnavailable, s\<lparr>world := w', trace := trace s @ [EsRequest req]\<rparr>)"
  using assms
  by (simp add: es_maybe_unvailable_metrics_def es_request_def io_bind_def perform_def
      expect_response_def io_return_def io_raise_def)


subsection \<open>C10: the searchable count of a feed is clamped at zero\<close>

text \<open>
  C10: for every pair of backend count responses, the per-feed searchable count returned by
  \<open>es_feed_activities_total\<close> is never negative: when the nonsearchable count exceeds the
  feed's total count, the searchable value is zero. For any backend that answers the two
  count requests with status 200 and integer counts, the function returns
  \<open>(max (total - nonsearchable) 0, nonsearchable)\<close>.
\<close>

theorem es_feed_activities_total_clamped:
  assumes first: "h (EsRequest (count_req (ALIAS @ ''__feed_id_'' @ feed_id @ ''__*,-*'' @ ALIAS))) (world s)
            = (Inr (Response nonsearchable_result), w1)"
    and "resp_status nonsearchable_result = 200"
    and "resp_json nonsearchable_result = Some nonsearchable_body"
    and "subscript nonsearchable_body ''count'' = Inr (JInt nonsearchable_count)"
    and second: "h (EsRequest (count_req (ALIAS @ ''__feed_id_'' @ feed_id @ ''__*''))) w1
            = (Inr (Response total_result), w2)"
    and "resp_status total_result = 200"
    and "resp_json total_result = Some total_body"
    and "subscript total_body ''count'' = Inr (JInt total_count)"
  shows "fst (es_feed_activities_total h feed_id s) = Return (max (total_count - nonsearchable_count) 0, JInt nonsearchable_count)
       \<and> 0 \<le> max (total_count - nonsearchable_count) 0
       \<and> (total_count < nonsearchable_count \<longrightarrow> max (total_count - nonsearchable_count) 0 = 0)"
proof -
  let ?s1 = "s\<lparr>world := w1, trace := trace s @
      [EsRequest (count_req (ALIAS @ ''__feed_id_'' @ feed_id @ ''__*,-*'' @ ALIAS))]\<rparr>"
  have 1: "es_maybe_unvailable_metrics h (count_req (ALIAS @ ''__feed_id_'' @ feed_id @ ''__*,-*'' @ ALIAS)) s
      = (Return nonsearchable_result, ?s1)"
    by (rule es_maybe_unvailable_metrics_ok) fact+
  have "h (EsRequest (count_req (ALIAS @ ''__feed_id_'' @ feed_id @ ''__*''))) (world ?s1)
            = (Inr (Response total_result), w2)"
    using second by simp
  then have 2: "es_maybe_unvailable_metrics h (count_req (ALIAS @ ''__feed_id_'' @ feed_id @ ''__*'')) ?s1
      = (Return total_result, ?s1\<lparr>world := w2, trace := trace ?s1 @
          [EsRequest (count_req (ALIAS @ ''__feed_id_'' @ feed_id @ ''__*''))]\<rparr>)"
    by (rule es_maybe_unvailable_metrics_ok) fact
  note b1 = io_bind_Return [of "es_maybe_unvailable_metrics h
      (count_req (ALIAS @ ''__feed_id_'' @ feed_id @ ''__*,-*'' @ ALIAS))" s nonsearchable_result ?s1, OF 1]
  note b2 = io_bind_Return [of "es_maybe_unvailable_metrics h
      (count_req (ALIAS @ ''__feed_id_'' @ feed_id @ ''__*''))" ?s1 total_result _, OF 2]
  have "fst (es_feed_activities_total h feed_id s) = Return (max (total_count - nonsearchable_count) 0, JInt nonsearchable_count)"
    unfolding es_feed_activities_total_def
    by (simp only: b1 b2 response_json_def assms(3,4,7,8) io_lift_def option.case sum.case
        io_bind_return py_sub_def prod.case json.case io_return_def fst_conv)
  then show ?thesis
    by simp
qed



theorem es_feed_activities_total_clamped_witness:
  "fst (es_feed_activities_total
      (stateless_backend (\<lambda>req. if rq_path req = ''/activities__feed_id_F1__*,-*activities/_count''
                                 then count_response 200 7 else count_response 200 5) 0)
      ''F1'' initial_state) = Return (0, JInt 7)"
proof -
  let ?h = "stateless_backend (\<lambda>req. if rq_path req = ''/activities__feed_id_F1__*,-*activities/_count''
                                 then count_response 200 7 else count_response 200 5) 0 :: unit handler"
  have 1: "?h (EsRequest (count_req (ALIAS @ ''__feed_id_'' @ ''F1'' @ ''__*,-*'' @ ALIAS))) (world initial_state)
      = (Inr (Response (count_response 200 7)), ())"
    by (simp add: stateless_backend_def count_req_def ALIAS_def)
  have 2: "?h (EsRequest (count_req (ALIAS @ ''__feed_id_'' @ ''F1'' @ ''__*''))) ()
      = (Inr (Response (count_response 200 5)), ())"
    by (simp add: stateless_backend_def count_req_def ALIAS_def)
  have 3: "resp_status (count_response 200 7) = 200"
     "resp_json (count_response 200 7) = Some (JDict [(''count'', JInt 7)])"
     "subscript (JDict [(''count'', JInt 7)]) ''count'' = Inr (JInt 7)"
     "resp_status (count_response 200 5) = 200"
     "resp_json (count_response 200 5) = Some (JDict [(''count'', JInt 5)])"
     "subscript (JDict [(''count'', JInt 5)]) ''count'' = Inr (JInt 5)"
    by (simp_all add: subscript_def count_response_def)
  from es_feed_activities_total_clamped [OF 1 3(1) 3(2) 3(3) 2 3(4) 3(5) 3(6)]
  show ?thesis
    by simp
qed
subsection \<open>The metrics sampler and an unavailable backend\<close>































end
